theory Spec2Isabelle
  imports Complex_Main
begin

section \<open>Python values, exceptions and catalog entries\<close>

text \<open>
  Exceptions are values. \<open>IndexError\<close> and \<open>ValueError\<close> are the two
  built-in exceptions the modelled statements themselves can raise; \<open>Raised msg\<close>
  is any exception that comes out of a collaborator (the catalog client, the
  resolution parser).
\<close>

datatype error = IndexError | ValueError | Raised string

text \<open>
  One search hit (class \<open>GPortalResponse\<close>). The classes \<open>GPortalGeo\<close> and
  \<open>GPortalProperties\<close> that hold its fields are declared outside the analysed files, so
  the record lists exactly the attributes the analysed code reads, flattened:
  \<open>properties.identifier\<close>, \<open>properties.status\<close>, \<open>properties.resolution\<close>,
  \<open>properties.orbitNumber\<close>, \<open>properties.meta.sceneNumber\<close>,
  \<open>properties.product.downloadUrl.geturl()\<close>, the list of
  \<open>properties.previews[k].url.geturl()\<close>, \<open>properties.meta.cloudCoverPercentage\<close> and
  \<open>geometry.coordinates\<close>, a sequence of (longitude, latitude) vertex pairs.
  \<open>orbitNumber\<close> is an integer, so the conversion \<open>int(f.properties.orbitNumber)\<close> is the
  identity on it.
\<close>

record GPortalResponse =
  "identifier" :: string
  status :: string
  resolution :: string
  orbitNumber :: int
  sceneNumber :: int
  downloadUrl :: string
  previews :: "string list"
  cloudCoverPercentage :: "real option"
  coordinates :: "(real \<times> real) list"

section \<open>Candidate resolution: \<open>GPortalSearchResult.filter_results\<close>\<close>

text \<open>
  The two geometry helpers \<open>inside_polygon\<close> and \<open>min_distance\<close> are imported from a
  module outside the analysed files; \<open>filter_results\<close> takes them as parameters \<open>ip\<close>
  and \<open>md\<close>. \<open>ip xs ys px py\<close> is compared with \<open>1\<close>; \<open>md point polygon\<close> gets the
  point as the two-element list \<open>[lat, lon]\<close> and the polygon as stored. Both are taken
  to return a value on every input, as their description requires of them (the
  containment test must not raise on degenerate polygons).
\<close>

type_synonym inside_fn = "real list \<Rightarrow> real list \<Rightarrow> real \<Rightarrow> real \<Rightarrow> int"
type_synonym distance_fn = "real list \<Rightarrow> (real \<times> real) list \<Rightarrow> real"

text \<open>
  \<open>poly = np.array(poly).T\<close> followed by \<open>poly[0]\<close> and \<open>poly[1]\<close>: for a non-empty list
  of pairs the transposed array has the longitudes as row 0 and the latitudes as row 1; for
  the empty list the array has shape \<open>(0,)\<close> and \<open>poly[0]\<close> raises \<open>IndexError\<close>.
\<close>

definition transpose_poly :: "(real \<times> real) list \<Rightarrow> error + (real list \<times> real list)" where
  "transpose_poly poly =
     (if poly = [] then Inl IndexError else Inr (map fst poly, map snd poly))"

text \<open>The loop \<open>for f in self.results: ... filtered.append(f)\<close> of the geographic branch.\<close>

fun collect_inside ::
  "inside_fn \<Rightarrow> real \<Rightarrow> real \<Rightarrow> GPortalResponse list \<Rightarrow> GPortalResponse list
     \<Rightarrow> error + GPortalResponse list" where
  "collect_inside ip lon lat [] filtered = Inr filtered"
| "collect_inside ip lon lat (f # fs) filtered =
     (case transpose_poly (coordinates f) of
        Inl e \<Rightarrow> Inl e
      | Inr (xs, ys) \<Rightarrow>
          collect_inside ip lon lat fs
            (if ip xs ys lon lat = 1 then filtered @ [f] else filtered))"

text \<open>Python's \<open>max(list)\<close>: the first largest element; \<open>ValueError\<close> on the empty list.\<close>

fun py_max :: "real list \<Rightarrow> error + real" where
  "py_max [] = Inl ValueError"
| "py_max (x # xs) = Inr (fold (\<lambda>y m. if m < y then y else m) xs x)"

text \<open>Python's \<open>list.index(v)\<close>: the first position holding \<open>v\<close>; \<open>ValueError\<close> if none.\<close>

fun py_index :: "real list \<Rightarrow> real \<Rightarrow> error + nat" where
  "py_index [] v = Inl ValueError"
| "py_index (x # xs) v =
     (if x = v then Inr 0
      else (case py_index xs v of Inl e \<Rightarrow> Inl e | Inr n \<Rightarrow> Inr (Suc n)))"

text \<open>The loop of the path/scene branch: the first product with matching numbers.\<close>

fun match_path_scene :: "int \<Rightarrow> int \<Rightarrow> GPortalResponse list \<Rightarrow> GPortalResponse option" where
  "match_path_scene path_number scene_number [] = None"
| "match_path_scene path_number scene_number (f # fs) =
     (if path_number = orbitNumber f \<and> scene_number = sceneNumber f then Some f
      else match_path_scene path_number scene_number fs)"

text \<open>
  \<open>filter_results(lat, lon, path_number, scene_number)\<close> on \<open>self.results = results\<close>.
  \<open>None\<close> arguments are \<open>None\<close>; the result \<open>Inr None\<close> is the returned \<open>None\<close>
  (no match), \<open>Inr (Some f)\<close> a returned product, \<open>Inl e\<close> a raised exception. In the
  last branch both \<open>lat\<close> and \<open>lon\<close> are known to be set, in the second to last both
  numbers.
\<close>

definition choose_index :: "distance_fn \<Rightarrow> real \<Rightarrow> real \<Rightarrow> GPortalResponse list \<Rightarrow> error + nat" where
  "choose_index md lat lon filtered =
     (if length filtered > 1 then
        (let boarder_dis = map (\<lambda>f. md [lat, lon] (coordinates f)) filtered in
           (case py_max boarder_dis of
              Inl e \<Rightarrow> Inl e
            | Inr m \<Rightarrow> py_index boarder_dis m))
      else Inr 0)"

definition filter_results ::
  "inside_fn \<Rightarrow> distance_fn \<Rightarrow> GPortalResponse list
     \<Rightarrow> real option \<Rightarrow> real option \<Rightarrow> int option \<Rightarrow> int option
     \<Rightarrow> error + GPortalResponse option" where
  "filter_results ip md results lat lon path_number scene_number =
     (if length results = 0 then Inr None
      else if (path_number = None \<or> scene_number = None) \<and> (lat = None \<or> lon = None)
        then Inr (Some (results ! 0))
      else if path_number \<noteq> None \<and> scene_number \<noteq> None
        then Inr (match_path_scene (the path_number) (the scene_number) results)
      else
        (case collect_inside ip (the lon) (the lat) results [] of
           Inl e \<Rightarrow> Inl e
         | Inr filtered \<Rightarrow>
             (case choose_index md (the lat) (the lon) filtered of
                Inl e \<Rightarrow> Inl e
              | Inr j \<Rightarrow>
                  if length filtered = 0 then Inr None
                  else if j < length filtered then Inr (Some (filtered ! j))
                  else Inl IndexError)))"

text \<open>
  Modelled from the spec: \<open>pointInPolygon(xs, ys, px, py)\<close>, the helper \<open>inside_polygon\<close>
  of the module \<open>utils\<close>, which is not among the analysed files. Crossing-number test on
  the implicitly closed ring: an edge counts when it straddles the horizontal line through
  the point and meets it to the right of the point; horizontal and zero-length edges never
  count; a ring with fewer than 3 vertices contains nothing. It serves as a concrete
  instance of the parameter \<open>ip\<close>.
\<close>

definition edge_crosses :: "real \<Rightarrow> real \<Rightarrow> (real \<times> real) \<times> (real \<times> real) \<Rightarrow> bool" where
  "edge_crosses px py e =
     (case e of ((x1, y1), (x2, y2)) \<Rightarrow>
        ((py < y1) \<noteq> (py < y2)) \<and> px < x1 + (py - y1) * (x2 - x1) / (y2 - y1))"

definition inside_polygon :: inside_fn where
  "inside_polygon xs ys px py =
     (let vs = zip xs ys in
        if length vs < 3 then 0
        else if odd (length (filter (edge_crosses px py) (zip vs (rotate1 vs)))) then 1
        else 0)"

text \<open>
  A product with the given identifier, path number, scene number and polygon; the other
  attributes are fixed. \<open>square h\<close> is the axis-parallel square of half-width \<open>h\<close> around
  longitude 139, latitude 35. Both build the concrete inputs of the examples.
\<close>

definition sample_product :: "string \<Rightarrow> int \<Rightarrow> int \<Rightarrow> (real \<times> real) list \<Rightarrow> GPortalResponse" where
  "sample_product name path_number scene_number poly =
     \<lparr>identifier = name, status = ''online'', resolution = ''250m'',
      orbitNumber = path_number, sceneNumber = scene_number,
      downloadUrl = ''https://example.org/data'', previews = [''https://example.org/preview''],
      cloudCoverPercentage = None, coordinates = poly\<rparr>"

definition square :: "real \<Rightarrow> (real \<times> real) list" where
  "square h = [(139 - h, 35 - h), (139 + h, 35 - h), (139 + h, 35 + h), (139 - h, 35 + h)]"

section \<open>The output table: \<open>GPortalResponse.to_dataframe\<close>\<close>

text \<open>
  A table cell as read from or written to the CSV file: a missing value (\<open>NaN\<close>, also what
  a stored \<open>None\<close> is), a number or a string. A \<open>DataFrame\<close> is its column names and its
  rows in position order, every row holding one cell per column; the row labels are the
  positions \<open>0, 1, ...\<close>, as \<open>pd.read_csv\<close> and \<open>ignore_index=True\<close> produce them.
\<close>

datatype cell = NaN | Num real | Str string

record DataFrame =
  columns :: "string list"
  rows :: "cell list list"

definition OUTPUT_COLUMNS :: "string list" where
  "OUTPUT_COLUMNS =
     [''identifier'', ''file_status'', ''resolution'', ''path_number'', ''scene_number'',
      ''download_url'', ''preview_url'', ''cloud_coverage'']"

text \<open>\<open>df.size\<close>: the number of cells, rows times columns.\<close>

definition size_df :: "DataFrame \<Rightarrow> nat" where
  "size_df d = length (rows d) * length (columns d)"

text \<open>
  \<open>df.loc[label, c] = v\<close> for the label of an existing row position \<open>i\<close>: the cell of
  every column named \<open>c\<close> in row \<open>i\<close> is overwritten; when no column is named \<open>c\<close> the
  column is added at the end, missing in every other row.
\<close>

definition set_loc :: "DataFrame \<Rightarrow> nat \<Rightarrow> string \<Rightarrow> cell \<Rightarrow> DataFrame" where
  "set_loc d i c v =
     (if c \<in> set (columns d)
      then d\<lparr>rows := (rows d)[i := map (\<lambda>(n, x). if n = c then v else x) (zip (columns d) (rows d ! i))]\<rparr>
      else d\<lparr>columns := columns d @ [c],
             rows := (map (\<lambda>r. r @ [NaN]) (rows d))[i := rows d ! i @ [v]]\<rparr>)"

definition cloud_cell :: "real option \<Rightarrow> cell" where
  "cloud_cell c = (case c of None \<Rightarrow> NaN | Some x \<Rightarrow> Num x)"

text \<open>
  The \<open>else\<close> branch of \<open>to_dataframe\<close>: eight assignments in source order. The seventh
  reads \<open>previews[0]\<close> and raises \<open>IndexError\<close> on an empty preview list, after the first six
  have been stored.
\<close>

definition write_row :: "GPortalResponse \<Rightarrow> DataFrame \<Rightarrow> nat \<Rightarrow> DataFrame \<times> error option" where
  "write_row r d i =
     (let d1 = set_loc d i ''identifier'' (Str (identifier r));
          d2 = set_loc d1 i ''file_status'' (Str (status r));
          d3 = set_loc d2 i ''resolution'' (Str (resolution r));
          d4 = set_loc d3 i ''path_number'' (Num (of_int (orbitNumber r)));
          d5 = set_loc d4 i ''scene_number'' (Num (of_int (sceneNumber r)));
          d6 = set_loc d5 i ''download_url'' (Str (downloadUrl r))
      in (case previews r of
            [] \<Rightarrow> (d6, Some IndexError)
          | p # ps \<Rightarrow>
              (set_loc (set_loc d6 i ''preview_url'' (Str p)) i ''cloud_coverage''
                 (cloud_cell (cloudCoverPercentage r)), None)))"

text \<open>The one-row frame \<open>j\<close> of the \<open>if\<close> branch, as a dictionary in column order.\<close>

definition new_row :: "GPortalResponse \<Rightarrow> error + (string \<times> cell) list" where
  "new_row r =
     (case previews r of
        [] \<Rightarrow> Inl IndexError
      | p # ps \<Rightarrow>
          Inr [(''identifier'', Str (identifier r)),
               (''file_status'', Str (status r)),
               (''resolution'', Str (resolution r)),
               (''path_number'', Num (of_int (orbitNumber r))),
               (''scene_number'', Num (of_int (sceneNumber r))),
               (''download_url'', Str (downloadUrl r)),
               (''preview_url'', Str p),
               (''cloud_coverage'', cloud_cell (cloudCoverPercentage r))])"

text \<open>
  \<open>pd.concat([df, j], axis=0, ignore_index=True)\<close>: the columns of \<open>df\<close> followed by those
  of \<open>j\<close> that \<open>df\<close> lacks; the rows of \<open>df\<close>, then the row of \<open>j\<close>; missing where a frame
  has no such column.
\<close>

definition concat_row :: "DataFrame \<Rightarrow> (string \<times> cell) list \<Rightarrow> DataFrame" where
  "concat_row d j =
     (let extra = filter (\<lambda>c. c \<notin> set (columns d)) (map fst j);
          cols = columns d @ extra
      in \<lparr>columns = cols,
          rows = map (\<lambda>r. r @ replicate (length extra) NaN) (rows d)
                   @ [map (\<lambda>c. case map_of j c of Some v \<Rightarrow> v | None \<Rightarrow> NaN) cols]\<rparr>)"

text \<open>
  The loop \<open>for c in OUTPUT_COLUMNS: if c not in df.columns: df[c] = []\<close>: assigning the
  empty list as a column succeeds on a frame without rows and raises \<open>ValueError\<close>
  (length mismatch) on a frame with rows.
\<close>

fun add_empty_columns :: "string list \<Rightarrow> DataFrame \<Rightarrow> error + DataFrame" where
  "add_empty_columns [] d = Inr d"
| "add_empty_columns (c # cs) d =
     (if c \<notin> set (columns d)
      then (if rows d = [] then add_empty_columns cs (d\<lparr>columns := columns d @ [c]\<rparr>)
            else Inl ValueError)
      else add_empty_columns cs d)"

text \<open>
  \<open>to_dataframe(df, index)\<close>. \<open>index\<close> is a row position counted from 0 (the values of
  \<open>range(len(df))\<close> that \<open>search_csv\<close> passes) or \<open>None\<close>. The result is a pair: the frame
  the caller passed, as the in-place assignments leave it (the fresh empty frame when the
  caller passed \<open>None\<close>), and what the call returns or raises. \<open>pd.concat\<close> builds a new
  frame, so in the \<open>if\<close> branch the caller's frame keeps its rows; the \<open>else\<close> branch and
  the column loop assign in place.
\<close>

definition to_dataframe ::
  "GPortalResponse \<Rightarrow> DataFrame option \<Rightarrow> nat option \<Rightarrow> DataFrame \<times> (error + DataFrame)" where
  "to_dataframe r df index =
     (let d0 = (case df of None \<Rightarrow> \<lparr>columns = OUTPUT_COLUMNS, rows = []\<rparr> | Some d \<Rightarrow> d) in
        (case (case index of None \<Rightarrow> add_empty_columns OUTPUT_COLUMNS d0 | Some n \<Rightarrow> Inr d0) of
           Inl e \<Rightarrow> (d0, Inl e)
         | Inr d1 \<Rightarrow>
             (let i = (case index of None \<Rightarrow> 0 | Some n \<Rightarrow> n) in
                if i = size_df d1 then
                  (case new_row r of
                     Inl e \<Rightarrow> (d1, Inl e)
                   | Inr j \<Rightarrow> (d1, Inr (concat_row d1 j)))
                else if i < length (rows d1) then
                  (case write_row r d1 i of
                     (d2, Some e) \<Rightarrow> (d2, Inl e)
                   | (d2, None) \<Rightarrow> (d2, Inr d2))
                else (d1, Inl IndexError))))"

section \<open>The bulk driver: \<open>get_value\<close> and \<open>search_csv\<close>\<close>

text \<open>Python truth of a cell: a number is true unless zero, a string unless empty.\<close>

definition truthy :: "cell \<Rightarrow> bool" where
  "truthy c = (case c of NaN \<Rightarrow> True | Num x \<Rightarrow> x \<noteq> 0 | Str s \<Rightarrow> s \<noteq> [])"

definition opt_truthy :: "cell option \<Rightarrow> bool" where
  "opt_truthy v = (case v of None \<Rightarrow> False | Some c \<Rightarrow> truthy c)"

definition fillna0 :: "cell \<Rightarrow> cell" where
  "fillna0 c = (case c of NaN \<Rightarrow> Num 0 | Num x \<Rightarrow> Num x | Str s \<Rightarrow> Str s)"

text \<open>
  \<open>df.iloc[i].fillna(0).to_dict()\<close>: the dictionary from column name to the cell of row
  \<open>i\<close>, missing cells replaced by \<open>0\<close> (a later column of the same name wins).
\<close>

definition row_dict :: "DataFrame \<Rightarrow> nat \<Rightarrow> (string \<rightharpoonup> cell)" where
  "row_dict d i = map_of (rev (zip (columns d) (map fillna0 (rows d ! i))))"

text \<open>\<open>get_value(d, key)\<close>: the value when the key is present and the value is true, else \<open>None\<close>.\<close>

definition get_value :: "(string \<rightharpoonup> cell) \<Rightarrow> string \<Rightarrow> cell option" where
  "get_value d key = (case d key of None \<Rightarrow> None | Some v \<Rightarrow> if truthy v then Some v else None)"

text \<open>
  The collaborators of the driver, all declared outside the analysed files:
  \<open>api.search(date, lat, lon, resolution, path_number, scene_number)\<close>, which returns a
  product, returns \<open>None\<close> or raises (its first argument here is the position of the row
  the call is made for, so that the answer may differ from call to call);
  \<open>GPortalResolution.from_int(int(v))\<close> on a cell \<open>v\<close>, which returns a resolution or
  raises; and the default resolution \<open>GPortalResolution.H\<close>.
\<close>

record 'r GportalApi =
  api_search :: "nat \<Rightarrow> cell option \<Rightarrow> cell option \<Rightarrow> cell option \<Rightarrow> 'r
                   \<Rightarrow> cell option \<Rightarrow> cell option \<Rightarrow> error + GPortalResponse option"
  resolution_from_int :: "cell \<Rightarrow> error + 'r"
  resolution_H :: "'r"

text \<open>
  The state of a run: the table \<open>df\<close>; the files written by \<open>df.to_csv(args.csv)\<close>, oldest
  first, each a copy of the whole table; the row positions for which \<open>api.search\<close> was
  called, in call order; and the count of the progress bar.
\<close>

record run_state =
  table :: DataFrame
  saved :: "DataFrame list"
  calls :: "nat list"
  pbar :: nat

definition select_resolution :: "'r GportalApi \<Rightarrow> cell option \<Rightarrow> error + 'r" where
  "select_resolution api v =
     (case v of
        None \<Rightarrow> Inr (resolution_H api)
      | Some c \<Rightarrow> if truthy c then resolution_from_int api c else Inr (resolution_H api))"

text \<open>The tail of the loop body: \<open>pbar.update(1)\<close>, then the save when \<open>i % 100 == 0\<close>.\<close>

definition finish_row :: "nat \<Rightarrow> run_state \<Rightarrow> run_state" where
  "finish_row i st =
     (let st1 = st\<lparr>pbar := pbar st + 1\<rparr> in
        if i mod 100 = 0 then st1\<lparr>saved := saved st1 @ [table st1]\<rparr> else st1)"

text \<open>
  One pass through the body of \<open>for i in range(len(df))\<close>. The first component is the
  exception that leaves the loop, if any; nothing in \<open>search_csv\<close> catches one. The value
  returned by \<open>result.to_dataframe(df, i)\<close> is discarded by the caller, only its in-place
  effect on \<open>df\<close> remains.
\<close>

definition search_csv_row ::
  "'r GportalApi \<Rightarrow> bool \<Rightarrow> nat \<Rightarrow> run_state \<Rightarrow> error option \<times> run_state" where
  "search_csv_row api no_repeat i st =
     (if length (rows (table st)) \<le> i then (Some IndexError, st)
      else
        (let row = row_dict (table st) i;
             date = get_value row ''date'';
             lat = get_value row ''lat'';
             lon = get_value row ''lon'';
             path_number = get_value row ''path_number'';
             scene_number = get_value row ''scene_number'';
             res = get_value row ''resolution'';
             ident = get_value row ''identifier''
         in (case select_resolution api res of
               Inl e \<Rightarrow> (Some e, st)
             | Inr res' \<Rightarrow>
                 if opt_truthy ident \<and> no_repeat then (None, st\<lparr>pbar := pbar st + 1\<rparr>)
                 else
                   (let st1 = st\<lparr>calls := calls st @ [i]\<rparr> in
                      (case api_search api i date lat lon res' path_number scene_number of
                         Inl e \<Rightarrow> (Some e, st1)
                       | Inr None \<Rightarrow> (None, finish_row i st1)
                       | Inr (Some r) \<Rightarrow>
                           (case to_dataframe r (Some (table st1)) (Some i) of
                              (d, Inl e) \<Rightarrow> (Some e, st1\<lparr>table := d\<rparr>)
                            | (d, Inr d') \<Rightarrow> (None, finish_row i (st1\<lparr>table := d\<rparr>))))))))"

fun search_csv_rows ::
  "'r GportalApi \<Rightarrow> bool \<Rightarrow> nat list \<Rightarrow> run_state \<Rightarrow> error option \<times> run_state" where
  "search_csv_rows api no_repeat [] st = (None, st)"
| "search_csv_rows api no_repeat (i # js) st =
     (case search_csv_row api no_repeat i st of
        (Some e, st') \<Rightarrow> (Some e, st')
      | (None, st') \<Rightarrow> search_csv_rows api no_repeat js st')"

text \<open>
  \<open>search_csv\<close> on the table read from the CSV file: the loop over
  \<open>range(len(df))\<close>, then the final \<open>df.to_csv\<close>. Writing the file is taken to succeed.
  The download step after the final save is outside this model.
\<close>

definition search_csv :: "'r GportalApi \<Rightarrow> bool \<Rightarrow> DataFrame \<Rightarrow> error option \<times> run_state" where
  "search_csv api no_repeat d =
     (case search_csv_rows api no_repeat [0..<length (rows d)]
             \<lparr>table = d, saved = [], calls = [], pbar = 0\<rparr> of
        (Some e, st) \<Rightarrow> (Some e, st)
      | (None, st) \<Rightarrow> (None, st\<lparr>saved := saved st @ [table st]\<rparr>))"

section \<open>Notions for stating properties of a run\<close>

text \<open>
  \<open>cell_at d i key\<close> is the cell of row \<open>i\<close> in the column named \<open>key\<close>, as stored
  (\<open>None\<close> when there is no such column). A row carries an identifier when that cell is a
  non-empty string. A table is well formed when every row has one cell per column.
  \<open>extends d d' i\<close>: \<open>d'\<close> has the rows of \<open>d\<close>, the columns of \<open>d\<close> followed by new
  ones, and its row \<open>i\<close> is row \<open>i\<close> of \<open>d\<close> followed by a missing cell per new column.
\<close>

definition cell_at :: "DataFrame \<Rightarrow> nat \<Rightarrow> string \<Rightarrow> cell option" where
  "cell_at d i key = map_of (rev (zip (columns d) (rows d ! i))) key"

definition has_identifier :: "DataFrame \<Rightarrow> nat \<Rightarrow> bool" where
  "has_identifier d i =
     (case cell_at d i ''identifier'' of
        Some (Str s) \<Rightarrow> s \<noteq> []
      | Some (Num x) \<Rightarrow> False
      | Some NaN \<Rightarrow> False
      | None \<Rightarrow> False)"

definition well_formed :: "DataFrame \<Rightarrow> bool" where
  "well_formed d = list_all (\<lambda>r. length r = length (columns d)) (rows d)"

definition extends :: "DataFrame \<Rightarrow> DataFrame \<Rightarrow> nat \<Rightarrow> bool" where
  "extends d d' i \<longleftrightarrow>
     length (rows d') = length (rows d) \<and>
     (\<exists>cs. columns d' = columns d @ cs \<and> set cs \<inter> set (columns d) = {}
           \<and> rows d' ! i = rows d ! i @ replicate (length cs) NaN)"

text \<open>
  A cell that Python takes for false after \<open>fillna(0)\<close>, or that is not there: no such
  column, a missing value, the number zero, the empty string.
\<close>

definition not_supplied :: "cell option \<Rightarrow> bool" where
  "not_supplied v = (v = None \<or> v = Some NaN \<or> v = Some (Num 0) \<or> v = Some (Str []))"

text \<open>
  \<open>supplied d i key\<close> is the value a query takes from the cell of row \<open>i\<close> in column
  \<open>key\<close> when absent, missing, zero and empty cells count as not supplied: \<open>None\<close> for
  those, the cell itself otherwise.
\<close>

definition supplied :: "DataFrame \<Rightarrow> nat \<Rightarrow> string \<Rightarrow> cell option" where
  "supplied d i key = (if not_supplied (cell_at d i key) then None else cell_at d i key)"

text \<open>
  The part of the loop body that follows the call \<open>api.search(...)\<close>, as a function of what
  the call returned or raised: \<open>st1\<close> is the state with the call recorded.
\<close>

definition after_search ::
  "nat \<Rightarrow> run_state \<Rightarrow> error + GPortalResponse option \<Rightarrow> error option \<times> run_state" where
  "after_search i st1 answer =
     (case answer of
        Inl e \<Rightarrow> (Some e, st1)
      | Inr None \<Rightarrow> (None, finish_row i st1)
      | Inr (Some r) \<Rightarrow>
          (case to_dataframe r (Some (table st1)) (Some i) of
             (d, Inl e) \<Rightarrow> (Some e, st1\<lparr>table := d\<rparr>)
           | (d, Inr d') \<Rightarrow> (None, finish_row i (st1\<lparr>table := d\<rparr>))))"

text \<open>
  Concrete inputs of the examples: a table with the columns \<open>date\<close>, \<open>lat\<close>, \<open>lon\<close>,
  \<open>identifier\<close>; a fresh run state; and a stand-in for the catalog client whose answer
  depends on the row position only, with a resolution parser that always succeeds.
\<close>

definition sample_table :: "cell list list \<Rightarrow> DataFrame" where
  "sample_table rs = \<lparr>columns = [''date'', ''lat'', ''lon'', ''identifier''], rows = rs\<rparr>"

definition century_table :: DataFrame where
  "century_table =
     sample_table (map (\<lambda>i. [Str ''2020-01-01'', Num 35, Num 139,
                              if i mod 100 = 0 then Str ''X123'' else NaN]) [0..<201])"

definition start_state :: "DataFrame \<Rightarrow> run_state" where
  "start_state d = \<lparr>table = d, saved = [], calls = [], pbar = 0\<rparr>"

definition sample_api :: "(nat \<Rightarrow> error + GPortalResponse option) \<Rightarrow> unit GportalApi" where
  "sample_api answer =
     \<lparr>api_search = (\<lambda>i date lat lon res path_number scene_number. answer i),
      resolution_from_int = (\<lambda>c. Inr ()),
      resolution_H = ()\<rparr>"

section \<open>Facts about the helpers of \<open>filter_results\<close>\<close>

lemma match_path_scene_find:
  "match_path_scene p s fs = find (\<lambda>f. p = orbitNumber f \<and> s = sceneNumber f) fs"
  by (induction fs) auto

lemma collect_inside_ok:
  "\<forall>f\<in>set fs. coordinates f \<noteq> [] \<Longrightarrow>
     collect_inside ip lon lat fs acc =
       Inr (acc @ filter (\<lambda>f. ip (map fst (coordinates f)) (map snd (coordinates f)) lon lat = 1) fs)"
  by (induction fs arbitrary: acc) (auto simp: transpose_poly_def)

lemma collect_inside_empty_polygon:
  "\<exists>f\<in>set fs. coordinates f = [] \<Longrightarrow> collect_inside ip lon lat fs acc = Inl IndexError"
proof (induction fs arbitrary: acc)
  case Nil
  then show ?case by simp
next
  case (Cons f fs)
  show ?case
  proof (cases "coordinates f = []")
    case True
    then show ?thesis by (simp add: transpose_poly_def)
  next
    case False
    with Cons.prems have "\<exists>g\<in>set fs. coordinates g = []" by auto
    with Cons.IH False show ?thesis by (simp add: transpose_poly_def)
  qed
qed

lemma py_max_Max: "xs \<noteq> [] \<Longrightarrow> py_max xs = Inr (Max (set xs))"
proof (cases xs)
  case Nil
  assume "xs \<noteq> []"
  with Nil show ?thesis by simp
next
  case (Cons x ys)
  have "(\<lambda>y m. if m < y then y else m) = (max :: real \<Rightarrow> real \<Rightarrow> real)"
    by (intro ext) (simp add: max_def)
  moreover have "fold max ys x = Max (set (x # ys))"
    by (rule Max.set_eq_fold[symmetric])
  ultimately show ?thesis using Cons by (simp del: set_simps)
qed

lemma py_index_first:
  "v \<in> set xs \<Longrightarrow> \<exists>j<length xs. py_index xs v = Inr j \<and> xs ! j = v \<and> (\<forall>k<j. xs ! k \<noteq> v)"
proof (induction xs)
  case Nil
  then show ?case by simp
next
  case (Cons x xs)
  show ?case
  proof (cases "x = v")
    case True
    then show ?thesis by (intro exI[of _ 0]) simp
  next
    case False
    with Cons.prems have "v \<in> set xs" by simp
    from Cons.IH[OF this] obtain j where j:
      "j < length xs" "py_index xs v = Inr j" "xs ! j = v" "\<forall>k<j. xs ! k \<noteq> v"
      by blast
    show ?thesis
      by (intro exI[of _ "Suc j"]) (use False j in \<open>auto simp: less_Suc_eq_0_disj\<close>)
  qed
qed

lemma choose_index_many:
  assumes "1 < length fs"
  shows "\<exists>j<length fs. choose_index md lat lon fs = Inr j
           \<and> (\<forall>k<length fs. md [lat, lon] (coordinates (fs ! k)) \<le> md [lat, lon] (coordinates (fs ! j)))
           \<and> (\<forall>k<j. md [lat, lon] (coordinates (fs ! k)) < md [lat, lon] (coordinates (fs ! j)))"
proof -
  define ds where "ds = map (\<lambda>f. md [lat, lon] (coordinates f)) fs"
  from assms have ne: "ds \<noteq> []" and len: "length ds = length fs"
    by (auto simp: ds_def)
  have mx: "py_max ds = Inr (Max (set ds))" using ne by (rule py_max_Max)
  have "Max (set ds) \<in> set ds" using ne by (intro Max_in) auto
  from py_index_first[OF this] obtain j where j:
    "j < length ds" "py_index ds (Max (set ds)) = Inr j" "ds ! j = Max (set ds)"
    "\<forall>k<j. ds ! k \<noteq> Max (set ds)"
    by blast
  have le: "ds ! k \<le> ds ! j" if "k < length ds" for k
    using that j(3) by (simp add: Max_ge)
  have lt: "ds ! k < ds ! j" if "k < j" for k
  proof -
    from that j(1) have "k < length ds" by simp
    from le[OF this] j(4) that j(3) show ?thesis by (simp add: order_less_le)
  qed
  have nth: "ds ! k = md [lat, lon] (coordinates (fs ! k))" if "k < length fs" for k
    using that by (simp add: ds_def)
  have ci: "choose_index md lat lon fs = Inr j"
    using assms mx j(2) by (simp add: choose_index_def ds_def)
  show ?thesis
  proof (intro exI[of _ j] conjI allI impI)
    show "j < length fs" using j(1) len by simp
    show "choose_index md lat lon fs = Inr j" by (rule ci)
  next
    fix k assume "k < length fs"
    then show "md [lat, lon] (coordinates (fs ! k)) \<le> md [lat, lon] (coordinates (fs ! j))"
      using le[of k] nth[of k] nth[of j] j(1) len by simp
  next
    fix k assume "k < j"
    then show "md [lat, lon] (coordinates (fs ! k)) < md [lat, lon] (coordinates (fs ! j))"
      using lt[of k] nth[of k] nth[of j] j(1) len by simp
  qed
qed

lemma filter_results_geographic_branch:
  assumes "results \<noteq> []" and "path_number = None \<or> scene_number = None"
  shows "filter_results ip md results (Some lat) (Some lon) path_number scene_number =
     (case collect_inside ip lon lat results [] of
        Inl e \<Rightarrow> Inl e
      | Inr filtered \<Rightarrow>
          (case choose_index md lat lon filtered of
             Inl e \<Rightarrow> Inl e
           | Inr j \<Rightarrow>
               if length filtered = 0 then Inr None
               else if j < length filtered then Inr (Some (filtered ! j))
               else Inl IndexError))"
  using assms by (auto simp: filter_results_def cong: sum.case_cong)

section \<open>Resolution: the four branches\<close>

text \<open>
  C9. For a non-empty result list and a filter with neither a complete (path, scene) pair
  nor a complete (lat, lon) pair, \<open>filter_results\<close> returns the first product of the
  list; on the empty result list it returns \<open>None\<close> whatever the filter is.
\<close>

theorem filter_results_no_filter:
  "(results \<noteq> [] \<and> (path_number = None \<or> scene_number = None) \<and> (lat = None \<or> lon = None)
      \<longrightarrow> filter_results ip md results lat lon path_number scene_number = Inr (Some (hd results)))
   \<and> filter_results ip md [] lat lon path_number scene_number = Inr None"
  by (auto simp: filter_results_def hd_conv_nth)

text \<open>
  C2. With a complete (path, scene) pair the result list is scanned in order and the first
  product whose \<open>orbitNumber\<close> equals the path and whose \<open>sceneNumber\<close> equals the scene is
  returned, \<open>None\<close> if there is none. Latitude, longitude, the geometry helpers and the
  polygons play no part: the equation holds for every \<open>lat\<close>, \<open>lon\<close>, \<open>ip\<close> and \<open>md\<close>.
\<close>

theorem filter_results_path_scene:
  "filter_results ip md results lat lon (Some p) (Some s) =
     Inr (find (\<lambda>f. p = orbitNumber f \<and> s = sceneNumber f) results)
   \<and> (case find (\<lambda>f. p = orbitNumber f \<and> s = sceneNumber f) results of
        None \<Rightarrow> list_all (\<lambda>f. \<not> (p = orbitNumber f \<and> s = sceneNumber f)) results
      | Some f \<Rightarrow> (\<exists>i<length results. results ! i = f \<and> p = orbitNumber f \<and> s = sceneNumber f
                    \<and> list_all (\<lambda>g. \<not> (p = orbitNumber g \<and> s = sceneNumber g)) (take i results)))"
proof
  show "filter_results ip md results lat lon (Some p) (Some s) =
     Inr (find (\<lambda>f. p = orbitNumber f \<and> s = sceneNumber f) results)"
    by (cases results) (simp_all add: filter_results_def match_path_scene_find)
next
  show "case find (\<lambda>f. p = orbitNumber f \<and> s = sceneNumber f) results of
        None \<Rightarrow> list_all (\<lambda>f. \<not> (p = orbitNumber f \<and> s = sceneNumber f)) results
      | Some f \<Rightarrow> (\<exists>i<length results. results ! i = f \<and> p = orbitNumber f \<and> s = sceneNumber f
                    \<and> list_all (\<lambda>g. \<not> (p = orbitNumber g \<and> s = sceneNumber g)) (take i results))"
  proof (cases "find (\<lambda>f. p = orbitNumber f \<and> s = sceneNumber f) results")
    case None
    then have "list_all (\<lambda>f. \<not> (p = orbitNumber f \<and> s = sceneNumber f)) results"
      by (auto simp: find_None_iff list_all_iff)
    then show ?thesis unfolding None by simp
  next
    case (Some f)
    then obtain i where i: "i < length results" "p = orbitNumber (results ! i) \<and> s = sceneNumber (results ! i)"
      "f = results ! i" "\<forall>j<i. \<not> (p = orbitNumber (results ! j) \<and> s = sceneNumber (results ! j))"
      unfolding find_Some_iff by blast
    have "list_all (\<lambda>g. \<not> (p = orbitNumber g \<and> s = sceneNumber g)) (take i results)"
      using i(1) i(4) by (auto simp: list_all_length)
    with i Some show ?thesis by auto
  qed
qed

text \<open>
  C1, as the code has it. With a complete (lat, lon) pair and no complete (path, scene)
  pair, on a result list in which every polygon has at least one vertex,
  \<open>filter_results\<close> keeps, in list order,
  the products whose polygon passes the containment test
  \<open>inside_polygon(longitudes, latitudes, lon, lat) == 1\<close>. If none is kept it returns
  \<open>None\<close>; if exactly one is kept it returns that one; if several are kept it returns the
  one at the first position where \<open>min_distance([lat, lon], polygon)\<close> is largest: no kept
  product scores higher, and every kept product before it scores strictly lower.
\<close>

theorem filter_results_geographic:
  fixes ip :: inside_fn and md :: distance_fn and lat lon :: real
    and results :: "GPortalResponse list"
  assumes "path_number = None \<or> scene_number = None"
    and "\<forall>f\<in>set results. coordinates f \<noteq> []"
  defines "filtered \<equiv>
    filter (\<lambda>f. ip (map fst (coordinates f)) (map snd (coordinates f)) lon lat = 1) results"
  shows "(filtered = [] \<longrightarrow>
            filter_results ip md results (Some lat) (Some lon) path_number scene_number = Inr None)
       \<and> (\<forall>f. filtered = [f] \<longrightarrow>
            filter_results ip md results (Some lat) (Some lon) path_number scene_number = Inr (Some f))
       \<and> (1 < length filtered \<longrightarrow>
            (\<exists>j<length filtered.
               filter_results ip md results (Some lat) (Some lon) path_number scene_number
                 = Inr (Some (filtered ! j))
               \<and> (\<forall>k<length filtered. md [lat, lon] (coordinates (filtered ! k))
                                        \<le> md [lat, lon] (coordinates (filtered ! j)))
               \<and> (\<forall>k<j. md [lat, lon] (coordinates (filtered ! k))
                           < md [lat, lon] (coordinates (filtered ! j)))))"
proof (cases "results = []")
  case True
  then show ?thesis by (simp add: filtered_def filter_results_def)
next
  case False
  have ci: "collect_inside ip lon lat results [] = Inr filtered"
    using collect_inside_ok[OF assms(2), of ip lon lat "[]"] by (simp add: filtered_def)
  note br = filter_results_geographic_branch[OF False assms(1), of ip md lat lon]
  have one: "filter_results ip md results (Some lat) (Some lon) path_number scene_number = Inr None"
    if "filtered = []"
    using that by (simp add: br ci choose_index_def)
  have two: "filter_results ip md results (Some lat) (Some lon) path_number scene_number = Inr (Some f)"
    if "filtered = [f]" for f
    using that by (simp add: br ci choose_index_def)
  have three: "\<exists>j<length filtered.
       filter_results ip md results (Some lat) (Some lon) path_number scene_number
         = Inr (Some (filtered ! j))
       \<and> (\<forall>k<length filtered. md [lat, lon] (coordinates (filtered ! k))
                                \<le> md [lat, lon] (coordinates (filtered ! j)))
       \<and> (\<forall>k<j. md [lat, lon] (coordinates (filtered ! k))
                   < md [lat, lon] (coordinates (filtered ! j)))"
    if many: "1 < length filtered"
  proof -
    from choose_index_many[OF many, of md lat lon] obtain j where j:
      "j < length filtered" "choose_index md lat lon filtered = Inr j"
      "\<forall>k<length filtered. md [lat, lon] (coordinates (filtered ! k))
          \<le> md [lat, lon] (coordinates (filtered ! j))"
      "\<forall>k<j. md [lat, lon] (coordinates (filtered ! k))
          < md [lat, lon] (coordinates (filtered ! j))"
      by blast
    have "filter_results ip md results (Some lat) (Some lon) path_number scene_number
            = Inr (Some (filtered ! j))"
      using j(1) j(2) by (auto simp: br ci)
    with j show ?thesis by blast
  qed
  from one two three show ?thesis by blast
qed

theorem filter_results_geographic_witness:
  "((None :: int option) = None \<or> (None :: int option) = None)
   \<and> list_all (\<lambda>f. coordinates f \<noteq> [])
        [sample_product ''A'' 1 1 (square 1), sample_product ''B'' 1 2 (square 5),
         sample_product ''C'' 1 3 (square 2)]
   \<and> filter_results inside_polygon (\<lambda>p poly. \<bar>fst (hd poly) - p ! 1\<bar>)
        [sample_product ''A'' 1 1 (square 1), sample_product ''B'' 1 2 (square 5),
         sample_product ''C'' 1 3 (square 2)]
        (Some 35) (Some 139) None None
      = Inr (Some (sample_product ''B'' 1 2 (square 5)))"
proof -
  define rs where "rs = [sample_product ''A'' 1 1 (square 1), sample_product ''B'' 1 2 (square 5),
         sample_product ''C'' 1 3 (square 2)]"
  define md :: distance_fn where "md = (\<lambda>p poly. \<bar>fst (hd poly) - p ! 1\<bar>)"
  have h1: "(None :: int option) = None \<or> (None :: int option) = None" by simp
  have h2: "\<forall>f\<in>set rs. coordinates f \<noteq> []"
    by (simp add: rs_def sample_product_def square_def)
  have flt: "filter (\<lambda>f. inside_polygon (map fst (coordinates f)) (map snd (coordinates f)) 139 35 = 1) rs = rs"
    by (simp add: rs_def sample_product_def square_def inside_polygon_def edge_crosses_def)
  have d0: "md [35, 139] (coordinates (rs ! 0)) = 1"
    and d1: "md [35, 139] (coordinates (rs ! 1)) = 5"
    and d2: "md [35, 139] (coordinates (rs ! 2)) = 2"
    by (simp_all add: rs_def md_def sample_product_def square_def)
  have len: "length rs = 3" by (simp add: rs_def)
  from filter_results_geographic[where ip = inside_polygon and md = md and lat = 35 and lon = 139
      and results = rs, OF h1 h2]
  have "\<exists>j<length rs.
          filter_results inside_polygon md rs (Some 35) (Some 139) None None = Inr (Some (rs ! j))
          \<and> (\<forall>k<length rs. md [35, 139] (coordinates (rs ! k)) \<le> md [35, 139] (coordinates (rs ! j)))
          \<and> (\<forall>k<j. md [35, 139] (coordinates (rs ! k)) < md [35, 139] (coordinates (rs ! j)))"
    unfolding flt using len by simp
  then obtain j where j: "j < length rs"
      "filter_results inside_polygon md rs (Some 35) (Some 139) None None = Inr (Some (rs ! j))"
      "\<forall>k<length rs. md [35, 139] (coordinates (rs ! k)) \<le> md [35, 139] (coordinates (rs ! j))"
    by blast
  from j(3) len have top: "5 \<le> md [35, 139] (coordinates (rs ! j))"
    using d1 by (metis one_less_numeral_iff semiring_norm(77))
  from j(1) len consider "j = 0" | "j = 1" | "j = 2" by linarith
  then have "j = 1"
  proof cases
    case 1
    with top d0 show ?thesis by simp
  next
    case 2
    then show ?thesis .
  next
    case 3
    with top d2 show ?thesis by simp
  qed
  with j(2) have "filter_results inside_polygon md rs (Some 35) (Some 139) None None = Inr (Some (rs ! 1))"
    by simp
  moreover have "rs ! 1 = sample_product ''B'' 1 2 (square 5)" by (simp add: rs_def)
  moreover have "list_all (\<lambda>f. coordinates f \<noteq> []) rs" using h2 by (simp add: list_all_iff)
  ultimately show ?thesis using h1 unfolding rs_def md_def by simp
qed

text \<open>
  Against C1 as stated for every result list: a product whose polygon has no vertex. The
  kept list would be the first product alone, but the call raises \<open>IndexError\<close> when it
  indexes the transposed array of the second, whatever the containment test is.
\<close>

theorem filter_results_empty_polygon_raises:
  "filter (\<lambda>f. inside_polygon (map fst (coordinates f)) (map snd (coordinates f)) 139 35 = 1)
      [sample_product ''A'' 1 1 (square 1), sample_product ''B'' 1 2 []]
     = [sample_product ''A'' 1 1 (square 1)]
   \<and> filter_results inside_polygon (\<lambda>p poly. 0)
      [sample_product ''A'' 1 1 (square 1), sample_product ''B'' 1 2 []]
      (Some 35) (Some 139) None None = Inl IndexError
   \<and> filter_results (\<lambda>xs ys px py. 1) (\<lambda>p poly. 0)
      [sample_product ''A'' 1 1 (square 1), sample_product ''B'' 1 2 []]
      (Some 35) (Some 139) None None = Inl IndexError"
  by (simp add: filter_results_def sample_product_def square_def inside_polygon_def
        edge_crosses_def transpose_poly_def)

theorem filter_results_no_filter_witness:
  "filter_results inside_polygon (\<lambda>p poly. 0)
      [sample_product ''A'' 1 1 (square 1), sample_product ''B'' 1 2 (square 5)]
      None (Some 139) (Some 1) None
     = Inr (Some (sample_product ''A'' 1 1 (square 1)))
   \<and> filter_results inside_polygon (\<lambda>p poly. 0) [] None (Some 139) (Some 1) None = Inr None"
  using filter_results_no_filter[where results = "[sample_product ''A'' 1 1 (square 1), sample_product ''B'' 1 2 (square 5)]"
      and path_number = "Some 1" and scene_number = None and lat = None and lon = "Some 139"
      and ip = inside_polygon and md = "\<lambda>p poly. 0"]
  by simp

theorem filter_results_path_scene_witness:
  "filter_results inside_polygon (\<lambda>p poly. 0)
      [sample_product ''A'' 7 2 (square 1), sample_product ''B'' 7 3 [(0, 0), (1, 0), (1, 1)],
       sample_product ''C'' 7 3 (square 2)]
      (Some 35) (Some 139) (Some 7) (Some 3)
     = Inr (Some (sample_product ''B'' 7 3 [(0, 0), (1, 0), (1, 1)]))"
  using filter_results_path_scene[where results = "[sample_product ''A'' 7 2 (square 1), sample_product ''B'' 7 3 [(0, 0), (1, 0), (1, 1)],
       sample_product ''C'' 7 3 (square 2)]" and p = 7 and s = 3
      and lat = "Some 35" and lon = "Some 139" and ip = inside_polygon and md = "\<lambda>p poly. 0"]
  by (simp add: sample_product_def)

section \<open>Resolution and malformed polygons\<close>







section \<open>Facts about the table operations\<close>

lemma extends_refl: "extends d d i"
  by (simp add: extends_def)

lemma extends_trans:
  assumes "extends a b i" and "extends b c i"
  shows "extends a c i"
proof -
  from assms(1) obtain cs1 where 1: "length (rows b) = length (rows a)"
    "columns b = columns a @ cs1" "set cs1 \<inter> set (columns a) = {}"
    "rows b ! i = rows a ! i @ replicate (length cs1) NaN"
    by (auto simp: extends_def)
  from assms(2) obtain cs2 where 2: "length (rows c) = length (rows b)"
    "columns c = columns b @ cs2" "set cs2 \<inter> set (columns b) = {}"
    "rows c ! i = rows b ! i @ replicate (length cs2) NaN"
    by (auto simp: extends_def)
  have "columns c = columns a @ (cs1 @ cs2)" using 1(2) 2(2) by simp
  moreover have "set (cs1 @ cs2) \<inter> set (columns a) = {}" using 1(2) 1(3) 2(3) by auto
  moreover have "rows c ! i = rows a ! i @ replicate (length (cs1 @ cs2)) NaN"
    using 1(4) 2(4) by (simp add: replicate_add)
  moreover have "length (rows c) = length (rows a)" using 1(1) 2(1) by simp
  ultimately show ?thesis unfolding extends_def by blast
qed

lemma set_loc_length: "length (rows (set_loc d j c v)) = length (rows d)"
  by (simp add: set_loc_def)

lemma set_loc_extends:
  assumes "i < length (rows d)" and "j \<noteq> i"
  shows "extends d (set_loc d j c v) i"
proof (cases "c \<in> set (columns d)")
  case True
  with assms show ?thesis by (simp add: set_loc_def extends_def)
next
  case False
  have "columns (set_loc d j c v) = columns d @ [c]" using False by (simp add: set_loc_def)
  moreover have "set [c] \<inter> set (columns d) = {}" using False by simp
  moreover have "rows (set_loc d j c v) ! i = rows d ! i @ replicate (length [c]) NaN"
    using False assms by (simp add: set_loc_def)
  moreover have "length (rows (set_loc d j c v)) = length (rows d)" by (rule set_loc_length)
  ultimately show ?thesis unfolding extends_def by blast
qed

lemma extends_set_loc:
  assumes "extends d d' i" and "i < length (rows d)" and "j \<noteq> i"
  shows "extends d (set_loc d' j c v) i"
proof -
  from assms(1) have "length (rows d') = length (rows d)" by (simp add: extends_def)
  with assms(2) have "i < length (rows d')" by simp
  from set_loc_extends[OF this assms(3)] have "extends d' (set_loc d' j c v) i" .
  with assms(1) show ?thesis by (rule extends_trans)
qed

lemma write_row_extends:
  assumes "i < length (rows d)" and "j \<noteq> i"
  shows "extends d (fst (write_row r d j)) i"
  using assms
  by (auto simp: write_row_def Let_def split: list.splits
        intro!: extends_set_loc extends_refl)

lemma write_row_length: "length (rows (fst (write_row r d j))) = length (rows d)"
  by (simp add: write_row_def Let_def set_loc_length split: list.splits)

lemma fst_to_dataframe:
  "fst (to_dataframe r (Some d) (Some j)) =
     (if j \<noteq> size_df d \<and> j < length (rows d) then fst (write_row r d j) else d)"
  by (cases "write_row r d j")
     (auto simp: to_dataframe_def Let_def split: sum.splits option.splits)

lemma to_dataframe_extends:
  assumes "to_dataframe r (Some d) (Some j) = (d', x)" and "i < length (rows d)" and "j \<noteq> i"
  shows "extends d d' i"
proof -
  from assms(1) have "d' = fst (to_dataframe r (Some d) (Some j))" by simp
  then show ?thesis
    using write_row_extends[OF assms(2) assms(3), of r] extends_refl[of d i]
    by (simp add: fst_to_dataframe)
qed

lemma to_dataframe_length:
  assumes "to_dataframe r (Some d) (Some j) = (d', x)"
  shows "length (rows d') = length (rows d)"
proof -
  from assms have "d' = fst (to_dataframe r (Some d) (Some j))" by simp
  then show ?thesis by (simp add: fst_to_dataframe write_row_length)
qed

section \<open>Facts about reading a row\<close>

lemma row_dict_cell_at: "row_dict d i key = map_option fillna0 (cell_at d i key)"
  by (simp add: row_dict_def cell_at_def zip_map2 rev_map map_of_map)

lemma get_value_cell_at:
  "get_value (row_dict d i) key =
     (case cell_at d i key of
        None \<Rightarrow> None
      | Some c \<Rightarrow> if truthy (fillna0 c) then Some (fillna0 c) else None)"
  by (simp add: get_value_def row_dict_cell_at split: option.splits)

lemma has_identifier_truthy:
  "has_identifier d i \<Longrightarrow> opt_truthy (get_value (row_dict d i) ''identifier'')"
  by (auto simp: has_identifier_def get_value_cell_at opt_truthy_def truthy_def fillna0_def
        split: option.splits cell.splits)

lemma map_of_zip_replicate:
  "map_of (rev (zip cs (replicate (length cs) v))) k = (if k \<in> set cs then Some v else None)"
proof (cases "k \<in> set cs")
  case False
  have "fst ` set (rev (zip cs (replicate (length cs) v))) = set cs"
    using map_fst_zip[of cs "replicate (length cs) v"]
    by (metis length_replicate set_map set_rev)
  with False show ?thesis by (simp add: map_of_eq_None_iff)
next
  case True
  have img: "fst ` set (rev (zip cs (replicate (length cs) v))) = set cs"
    using map_fst_zip[of cs "replicate (length cs) v"]
    by (metis length_replicate set_map set_rev)
  with True have "map_of (rev (zip cs (replicate (length cs) v))) k \<noteq> None"
    by (simp add: map_of_eq_None_iff)
  then obtain y where y: "map_of (rev (zip cs (replicate (length cs) v))) k = Some y" by blast
  then have "(k, y) \<in> set (zip cs (replicate (length cs) v))"
    using map_of_SomeD by fastforce
  then have "y \<in> set (replicate (length cs) v)" by (rule set_zip_rightD)
  then have "y = v" by simp
  with y True show ?thesis by simp
qed

lemma get_value_extends:
  assumes "extends d d' i" and "length (rows d ! i) = length (columns d)"
  shows "get_value (row_dict d' i) k = get_value (row_dict d i) k"
proof -
  from assms(1) obtain cs where cs: "columns d' = columns d @ cs"
    "set cs \<inter> set (columns d) = {}" "rows d' ! i = rows d ! i @ replicate (length cs) NaN"
    by (auto simp: extends_def)
  have rd: "row_dict d' i k =
      (case map_of (rev (zip cs (replicate (length cs) (Num 0)))) k of
         None \<Rightarrow> row_dict d i k
       | Some y \<Rightarrow> Some y)"
    using assms(2) by (simp add: row_dict_def cs fillna0_def map_add_def cong: option.case_cong)
  show ?thesis
  proof (cases "k \<in> set cs")
    case False
    then show ?thesis by (simp add: get_value_def rd map_of_zip_replicate)
  next
    case True
    with cs(2) have "k \<notin> set (columns d)" by auto
    then have "k \<notin> fst ` set (rev (zip (columns d) (map fillna0 (rows d ! i))))"
      by (auto dest: set_zip_leftD)
    then have "row_dict d i k = None" by (simp add: row_dict_def map_of_eq_None_iff)
    with True show ?thesis by (simp add: get_value_def rd map_of_zip_replicate truthy_def)
  qed
qed

section \<open>Facts about one pass of the loop\<close>

lemma table_finish_row: "table (finish_row i st) = table st"
  by (simp add: finish_row_def Let_def)

lemma calls_finish_row: "calls (finish_row i st) = calls st"
  by (simp add: finish_row_def Let_def)

lemma search_csv_row_out_of_range:
  "length (rows (table st)) \<le> j \<Longrightarrow> search_csv_row api nr j st = (Some IndexError, st)"
  by (simp add: search_csv_row_def)

lemma search_csv_row_skip:
  assumes "search_csv_row api True i st = (e, st')"
    and "opt_truthy (get_value (row_dict (table st) i) ''identifier'')"
  shows "table st' = table st \<and> saved st' = saved st \<and> calls st' = calls st"
  using assms
  by (auto simp: search_csv_row_def Let_def split: if_splits sum.splits)

lemma search_csv_row_other:
  assumes "search_csv_row api nr j st = (e, st')" and "i < length (rows (table st))" and "j \<noteq> i"
  shows "extends (table st) (table st') i \<and> set (calls st') \<subseteq> insert j (set (calls st))"
proof (cases "length (rows (table st)) \<le> j")
  case True
  with assms(1) show ?thesis by (auto simp: search_csv_row_out_of_range extends_refl)
next
  case False
  let ?row = "row_dict (table st) j"
  show ?thesis
  proof (cases "select_resolution api (get_value ?row ''resolution'')")
    case (Inl err)
    with assms(1) False show ?thesis
      by (auto simp: search_csv_row_def Let_def extends_refl)
  next
    case (Inr res)
    show ?thesis
    proof (cases "opt_truthy (get_value ?row ''identifier'') \<and> nr")
      case True
      with assms(1) False Inr show ?thesis
        by (auto simp: search_csv_row_def Let_def extends_refl)
    next
      case ns: False
      let ?ans = "api_search api j (get_value ?row ''date'') (get_value ?row ''lat'')
          (get_value ?row ''lon'') res (get_value ?row ''path_number'')
          (get_value ?row ''scene_number'')"
      show ?thesis
      proof (cases ?ans)
        case (Inl err)
        with assms(1) False Inr ns show ?thesis
          by (auto simp: search_csv_row_def Let_def extends_refl)
      next
        case ans: (Inr result)
        show ?thesis
        proof (cases result)
          case None
          with assms(1) False Inr ns ans show ?thesis
            by (auto simp: search_csv_row_def Let_def extends_refl table_finish_row
                  calls_finish_row)
        next
          case (Some r)
          obtain d' x where td: "to_dataframe r (Some (table st)) (Some j) = (d', x)"
            by (cases "to_dataframe r (Some (table st)) (Some j)") auto
          from to_dataframe_extends[OF td assms(2) assms(3)] have ex: "extends (table st) d' i" .
          from assms(1) False Inr ns ans Some td ex show ?thesis
            by (cases x)
               (auto simp: search_csv_row_def Let_def table_finish_row calls_finish_row)
        qed
      qed
    qed
  qed
qed

lemma search_csv_row_saved:
  assumes "search_csv_row api nr j st = (e, st')" and "j mod 100 \<noteq> 0"
  shows "saved st' = saved st"
  using assms
  by (auto simp: search_csv_row_def Let_def finish_row_def
        split: if_splits sum.splits option.splits prod.splits)

lemma search_csv_row_keeps:
  assumes step: "search_csv_row api True j st = (e, st')"
    and inv: "extends d (table st) i"
    and i: "i < length (rows d)" "length (rows d ! i) = length (columns d)" "has_identifier d i"
  shows "extends d (table st') i \<and> (i \<notin> set (calls st) \<longrightarrow> i \<notin> set (calls st'))
         \<and> (j = i \<longrightarrow> saved st' = saved st)"
proof (cases "j = i")
  case True
  have "get_value (row_dict (table st) i) ''identifier'' = get_value (row_dict d i) ''identifier''"
    using inv i(2) by (rule get_value_extends)
  with has_identifier_truthy[OF i(3)]
  have "opt_truthy (get_value (row_dict (table st) i) ''identifier'')" by simp
  with step True have "table st' = table st \<and> saved st' = saved st \<and> calls st' = calls st"
    using search_csv_row_skip[of api i st e st'] by simp
  with inv True show ?thesis by simp
next
  case False
  from inv i(1) have "i < length (rows (table st))" by (simp add: extends_def)
  from search_csv_row_other[OF step this False]
  have "extends (table st) (table st') i" and "set (calls st') \<subseteq> insert j (set (calls st))"
    by simp_all
  with inv False show ?thesis by (auto intro: extends_trans)
qed

lemma search_csv_row_length:
  assumes "search_csv_row api nr j st = (e, st')"
  shows "length (rows (table st')) = length (rows (table st))"
  using assms
  by (auto simp: search_csv_row_def Let_def table_finish_row
        split: if_splits sum.splits option.splits prod.splits dest: to_dataframe_length)

lemma search_csv_rows_length:
  assumes "search_csv_rows api nr js st = (e, st')"
  shows "length (rows (table st')) = length (rows (table st))"
  using assms
proof (induction js arbitrary: st)
  case Nil
  then show ?case by simp
next
  case (Cons j js)
  obtain e1 st1 where step: "search_csv_row api nr j st = (e1, st1)"
    by (cases "search_csv_row api nr j st") auto
  note l1 = search_csv_row_length[OF step]
  show ?case
  proof (cases e1)
    case None
    with Cons.prems step have "search_csv_rows api nr js st1 = (e, st')" by simp
    from Cons.IH[OF this] l1 show ?thesis by simp
  next
    case (Some err)
    with Cons.prems step have "st' = st1" by simp
    with l1 show ?thesis by simp
  qed
qed

section \<open>A row that already has an identifier\<close>

lemma search_csv_rows_keeps:
  assumes "search_csv_rows api True js st = (e, st')"
    and "extends d (table st) i" and "i \<notin> set (calls st)"
    and "i < length (rows d)" and "length (rows d ! i) = length (columns d)"
    and "has_identifier d i"
  shows "extends d (table st') i \<and> i \<notin> set (calls st')"
  using assms(1-3)
proof (induction js arbitrary: st)
  case Nil
  then show ?case by simp
next
  case (Cons j js)
  obtain e1 st1 where step: "search_csv_row api True j st = (e1, st1)"
    by (cases "search_csv_row api True j st") auto
  from search_csv_row_keeps[OF step Cons.prems(2) assms(4) assms(5) assms(6)] Cons.prems(3)
  have k: "extends d (table st1) i" "i \<notin> set (calls st1)" by simp_all
  show ?case
  proof (cases e1)
    case None
    with Cons.prems(1) step have "search_csv_rows api True js st1 = (e, st')" by simp
    from Cons.IH[OF this k] show ?thesis .
  next
    case (Some err)
    with Cons.prems(1) step have "st' = st1" by simp
    with k show ?thesis by simp
  qed
qed

lemma snd_search_csv:
  "table (snd (search_csv api nr d)) = table (snd (search_csv_rows api nr [0..<length (rows d)] (start_state d)))
   \<and> calls (snd (search_csv api nr d)) = calls (snd (search_csv_rows api nr [0..<length (rows d)] (start_state d)))"
  by (cases "search_csv_rows api nr [0..<length (rows d)] (start_state d)")
     (auto simp: search_csv_def start_state_def split: option.splits)

text \<open>
  C6. With \<open>no_repeat\<close> set, a row of a well-formed input table whose \<open>identifier\<close> cell
  is a non-empty string is never searched: its position is not among the positions
  \<open>api.search\<close> was called for. When the run ends or is left by an exception, the table
  still has the input columns first, and the row is the input row, followed only by a
  missing cell for each column the run added to the table.
\<close>

theorem search_csv_skips_identified_row:
  assumes "well_formed d" and "i < length (rows d)" and "has_identifier d i"
  shows "i \<notin> set (calls (snd (search_csv api True d)))
       \<and> take (length (columns d)) (columns (table (snd (search_csv api True d)))) = columns d
       \<and> rows (table (snd (search_csv api True d))) ! i
           = rows d ! i @ replicate (length (columns (table (snd (search_csv api True d))))
                                       - length (columns d)) NaN"
proof -
  obtain e st where run: "search_csv_rows api True [0..<length (rows d)] (start_state d) = (e, st)"
    by (cases "search_csv_rows api True [0..<length (rows d)] (start_state d)") auto
  from assms(1) assms(2) have len: "length (rows d ! i) = length (columns d)"
    by (simp add: well_formed_def list_all_length)
  have "extends d (table (start_state d)) i" and "i \<notin> set (calls (start_state d))"
    by (simp_all add: start_state_def extends_refl)
  from search_csv_rows_keeps[OF run this assms(2) len assms(3)]
  have ex: "extends d (table st) i" and nc: "i \<notin> set (calls st)" by simp_all
  from ex obtain cs where cs: "columns (table st) = columns d @ cs"
    "rows (table st) ! i = rows d ! i @ replicate (length cs) NaN"
    by (auto simp: extends_def)
  have t: "table (snd (search_csv api True d)) = table st"
    and c: "calls (snd (search_csv api True d)) = calls st"
    using snd_search_csv[of api True d] run by simp_all
  show ?thesis using nc cs by (simp add: t c)
qed

theorem search_csv_skips_identified_row_witness:
  "well_formed (sample_table [[Str ''2020-01-01'', Num 35, Num 139, Str ''X123''],
                              [Str ''2020-01-02'', Num 35, Num 139, NaN]])
   \<and> has_identifier (sample_table [[Str ''2020-01-01'', Num 35, Num 139, Str ''X123''],
                              [Str ''2020-01-02'', Num 35, Num 139, NaN]]) 0
   \<and> 0 \<notin> set (calls (snd (search_csv
              (sample_api (\<lambda>i. Inr (Some (sample_product ''B'' 1 2 (square 5))))) True
              (sample_table [[Str ''2020-01-01'', Num 35, Num 139, Str ''X123''],
                             [Str ''2020-01-02'', Num 35, Num 139, NaN]]))))
   \<and> take 4 (hd (rows (table (snd (search_csv
              (sample_api (\<lambda>i. Inr (Some (sample_product ''B'' 1 2 (square 5))))) True
              (sample_table [[Str ''2020-01-01'', Num 35, Num 139, Str ''X123''],
                             [Str ''2020-01-02'', Num 35, Num 139, NaN]]))))))
       = [Str ''2020-01-01'', Num 35, Num 139, Str ''X123'']"
proof -
  define d where "d = sample_table [[Str ''2020-01-01'', Num 35, Num 139, Str ''X123''],
                              [Str ''2020-01-02'', Num 35, Num 139, NaN]]"
  define api where "api = sample_api (\<lambda>i. Inr (Some (sample_product ''B'' 1 2 (square 5))))"
  have h1: "well_formed d" by (simp add: d_def sample_table_def well_formed_def)
  have h2: "0 < length (rows d)" by (simp add: d_def sample_table_def)
  have h3: "has_identifier d 0"
    by (simp add: d_def sample_table_def has_identifier_def cell_at_def)
  have r0: "rows d ! 0 = [Str ''2020-01-01'', Num 35, Num 139, Str ''X123'']"
    by (simp add: d_def sample_table_def)
  note t = search_csv_skips_identified_row[OF h1 h2 h3, of api]
  from t have c: "0 \<notin> set (calls (snd (search_csv api True d)))" by simp
  from t have "rows (table (snd (search_csv api True d))) ! 0
      = [Str ''2020-01-01'', Num 35, Num 139, Str ''X123'']
          @ replicate (length (columns (table (snd (search_csv api True d)))) - length (columns d)) NaN"
    by (simp add: r0)
  moreover have "rows (table (snd (search_csv api True d))) \<noteq> []"
  proof -
    obtain e st where run: "search_csv_rows api True [0..<length (rows d)] (start_state d) = (e, st)"
      by (cases "search_csv_rows api True [0..<length (rows d)] (start_state d)") auto
    have "length (rows (table st)) = length (rows (table (start_state d)))"
      using run by (rule search_csv_rows_length)
    then show ?thesis using snd_search_csv[of api True d] run h2
      by (auto simp: start_state_def)
  qed
  ultimately have "take 4 (hd (rows (table (snd (search_csv api True d)))))
      = [Str ''2020-01-01'', Num 35, Num 139, Str ''X123'']"
    by (simp add: hd_conv_nth)
  with c h1 h3 show ?thesis unfolding d_def api_def by simp
qed

section \<open>Saving during a run\<close>

lemma search_csv_rows_no_save:
  assumes "search_csv_rows api True js st = (e, st')"
    and "\<forall>i<length (rows d). i mod 100 = 0 \<longrightarrow> extends d (table st) i"
    and "length (rows (table st)) = length (rows d)"
    and ids: "\<forall>i<length (rows d). i mod 100 = 0 \<longrightarrow>
                has_identifier d i \<and> length (rows d ! i) = length (columns d)"
  shows "saved st' = saved st"
  using assms(1-3)
proof (induction js arbitrary: st)
  case Nil
  then show ?case by simp
next
  case (Cons j js)
  obtain e1 st1 where step: "search_csv_row api True j st = (e1, st1)"
    by (cases "search_csv_row api True j st") auto
  have keep: "extends d (table st1) i \<and> (j = i \<longrightarrow> saved st1 = saved st)"
    if "i < length (rows d)" "i mod 100 = 0" for i
  proof -
    from that Cons.prems(2) have "extends d (table st) i" by simp
    moreover from that ids have "has_identifier d i" "length (rows d ! i) = length (columns d)"
      by simp_all
    ultimately show ?thesis
      using search_csv_row_keeps[OF step, of d i] that(1) by simp
  qed
  have s1: "saved st1 = saved st"
  proof (cases "j mod 100 = 0")
    case False
    with step show ?thesis by (rule search_csv_row_saved)
  next
    case True
    show ?thesis
    proof (cases "j < length (rows d)")
      case True
      with keep[of j] \<open>j mod 100 = 0\<close> show ?thesis by simp
    next
      case False
      with Cons.prems(3) have "length (rows (table st)) \<le> j" by simp
      with step show ?thesis by (simp add: search_csv_row_out_of_range)
    qed
  qed
  have inv1: "\<forall>i<length (rows d). i mod 100 = 0 \<longrightarrow> extends d (table st1) i"
    using keep by simp
  have len1: "length (rows (table st1)) = length (rows d)"
    using search_csv_row_length[OF step] Cons.prems(3) by simp
  show ?case
  proof (cases e1)
    case None
    with Cons.prems(1) step have "search_csv_rows api True js st1 = (e, st')" by simp
    from Cons.IH[OF this inv1 len1] s1 show ?thesis by simp
  next
    case (Some err)
    with Cons.prems(1) step have "st' = st1" by simp
    with s1 show ?thesis by simp
  qed
qed

lemma search_csv_row_calls_mono:
  assumes "search_csv_row api nr j st = (e, st')"
  shows "set (calls st) \<subseteq> set (calls st')"
  using assms
  by (auto simp: search_csv_row_def Let_def calls_finish_row
        split: if_splits sum.splits option.splits prod.splits)

lemma search_csv_rows_calls_mono:
  assumes "search_csv_rows api nr js st = (e, st')"
  shows "set (calls st) \<subseteq> set (calls st')"
  using assms
proof (induction js arbitrary: st)
  case Nil
  then show ?case by simp
next
  case (Cons j js)
  obtain e1 st1 where step: "search_csv_row api nr j st = (e1, st1)"
    by (cases "search_csv_row api nr j st") auto
  note m1 = search_csv_row_calls_mono[OF step]
  show ?case
  proof (cases e1)
    case None
    with Cons.prems step have "search_csv_rows api nr js st1 = (e, st')" by simp
    from Cons.IH[OF this] m1 show ?thesis by blast
  next
    case (Some err)
    with Cons.prems step have "st' = st1" by simp
    with m1 show ?thesis by simp
  qed
qed

lemma search_csv_row_calls_self:
  assumes "search_csv_row api nr j st = (None, st')"
    and "j < length (rows (table st))"
    and "\<not> opt_truthy (get_value (row_dict (table st) j) ''identifier'')"
  shows "j \<in> set (calls st')"
  using assms
  by (auto simp: search_csv_row_def Let_def calls_finish_row
        split: if_splits sum.splits option.splits prod.splits)

lemma search_csv_rows_calls:
  assumes "search_csv_rows api nr js st = (None, st')" and "j \<in> set js"
    and "extends d (table st) j"
    and j: "j < length (rows d)" "length (rows d ! j) = length (columns d)"
      "\<not> opt_truthy (get_value (row_dict d j) ''identifier'')"
  shows "j \<in> set (calls st')"
  using assms(1-3)
proof (induction js arbitrary: st)
  case Nil
  then show ?case by simp
next
  case (Cons k js)
  obtain e1 st1 where step: "search_csv_row api nr k st = (e1, st1)"
    by (cases "search_csv_row api nr k st") auto
  have e1: "e1 = None" and rest: "search_csv_rows api nr js st1 = (None, st')"
    using Cons.prems(1) step by (cases e1; simp)+
  from Cons.prems(3) j(1) have jl: "j < length (rows (table st))" by (simp add: extends_def)
  show ?case
  proof (cases "k = j")
    case True
    have "get_value (row_dict (table st) j) ''identifier'' = get_value (row_dict d j) ''identifier''"
      using Cons.prems(3) j(2) by (rule get_value_extends)
    with j(3) have "\<not> opt_truthy (get_value (row_dict (table st) j) ''identifier'')" by simp
    with step e1 True jl have "j \<in> set (calls st1)"
      using search_csv_row_calls_self[of api nr j st st1] by simp
    with search_csv_rows_calls_mono[OF rest] show ?thesis by blast
  next
    case False
    with Cons.prems(2) have "j \<in> set js" by simp
    moreover from search_csv_row_other[OF step jl False] Cons.prems(3)
    have "extends d (table st1) j" by (auto intro: extends_trans)
    ultimately show ?thesis using Cons.IH[OF rest] by simp
  qed
qed

lemma not_supplied_not_truthy:
  "not_supplied (cell_at d j key) \<Longrightarrow> \<not> opt_truthy (get_value (row_dict d j) key)"
  by (auto simp: not_supplied_def get_value_cell_at opt_truthy_def truthy_def fillna0_def
        split: option.splits cell.splits)

lemma to_dataframe_returns:
  assumes "previews r \<noteq> []" and "j < length (rows d)"
  shows "\<exists>d''. snd (to_dataframe r (Some d) (Some j)) = Inr d''"
  using assms
  by (cases "previews r")
     (auto simp: to_dataframe_def Let_def new_row_def write_row_def)

lemma search_csv_row_completes:
  assumes "j < length (rows (table st))"
    and "\<forall>c. \<exists>r. resolution_from_int api c = Inr r"
    and "\<forall>i a b c r e f. \<exists>res. api_search api i a b c r e f = Inr res
            \<and> (\<forall>p. res = Some p \<longrightarrow> previews p \<noteq> [])"
  shows "fst (search_csv_row api nr j st) = None"
proof -
  let ?row = "row_dict (table st) j"
  have "\<exists>res. select_resolution api v = Inr res" for v
  proof (cases v)
    case None
    then show ?thesis by (simp add: select_resolution_def)
  next
    case (Some c)
    from assms(2) obtain r where "resolution_from_int api c = Inr r" by blast
    with Some show ?thesis by (simp add: select_resolution_def)
  qed
  then obtain res where sel: "select_resolution api (get_value ?row ''resolution'') = Inr res"
    by blast
  from assms(3) obtain ans where ans: "api_search api j (get_value ?row ''date'')
      (get_value ?row ''lat'') (get_value ?row ''lon'') res (get_value ?row ''path_number'')
      (get_value ?row ''scene_number'') = Inr ans" "\<forall>p. ans = Some p \<longrightarrow> previews p \<noteq> []"
    by blast
  show ?thesis
  proof (cases ans)
    case None
    with assms(1) sel ans(1) show ?thesis by (simp add: search_csv_row_def Let_def)
  next
    case (Some p)
    with ans(2) have "previews p \<noteq> []" by simp
    from to_dataframe_returns[OF this assms(1)] obtain d'' where
      "snd (to_dataframe p (Some (table st)) (Some j)) = Inr d''" by blast
    then obtain d' where "to_dataframe p (Some (table st)) (Some j) = (d', Inr d'')"
      by (cases "to_dataframe p (Some (table st)) (Some j)") auto
    with assms(1) sel ans(1) Some show ?thesis by (simp add: search_csv_row_def Let_def)
  qed
qed

lemma search_csv_rows_completes:
  assumes "\<forall>j\<in>set js. j < length (rows (table st))"
    and "\<forall>c. \<exists>r. resolution_from_int api c = Inr r"
    and "\<forall>i a b c r e f. \<exists>res. api_search api i a b c r e f = Inr res
            \<and> (\<forall>p. res = Some p \<longrightarrow> previews p \<noteq> [])"
  shows "fst (search_csv_rows api nr js st) = None"
  using assms(1)
proof (induction js arbitrary: st)
  case Nil
  then show ?case by simp
next
  case (Cons j js)
  obtain e1 st1 where step: "search_csv_row api nr j st = (e1, st1)"
    by (cases "search_csv_row api nr j st") auto
  from Cons.prems have "j < length (rows (table st))" by simp
  from search_csv_row_completes[OF this assms(2) assms(3), of nr] step have e1: "e1 = None" by simp
  from search_csv_row_length[OF step] Cons.prems
  have "\<forall>k\<in>set js. k < length (rows (table st1))" by simp
  from Cons.IH[OF this] step e1 show ?case by simp
qed

lemma search_csv_completes:
  assumes "\<forall>c. \<exists>r. resolution_from_int api c = Inr r"
    and "\<forall>i a b c r e f. \<exists>res. api_search api i a b c r e f = Inr res
            \<and> (\<forall>p. res = Some p \<longrightarrow> previews p \<noteq> [])"
  shows "fst (search_csv api nr d) = None"
proof -
  have "fst (search_csv_rows api nr [0..<length (rows d)] (start_state d)) = None"
    by (rule search_csv_rows_completes[OF _ assms]) (simp add: start_state_def)
  then show ?thesis
    by (cases "search_csv_rows api nr [0..<length (rows d)] (start_state d)")
       (simp add: search_csv_def start_state_def)
qed

text \<open>
  C5, where the code departs from it. The save inside the loop sits after the
  \<open>continue\<close> of a skipped row, and its test is on the row position, \<open>i % 100 == 0\<close>.
  So with \<open>no_repeat\<close> set, on a well-formed table in which every row at a position
  divisible by 100 already has an identifier, no file is written inside the loop however
  many other rows are searched and filled in: the only file of the run is the one written
  after the loop, and a run left by an exception has written none. In a run that reaches
  its end, every row without an identifier has been searched.
\<close>

theorem search_csv_no_intermediate_save:
  assumes "well_formed d"
    and "\<forall>i<length (rows d). i mod 100 = 0 \<longrightarrow> has_identifier d i"
  shows "saved (snd (search_csv api True d)) =
           (case fst (search_csv api True d) of
              None \<Rightarrow> [table (snd (search_csv api True d))]
            | Some e \<Rightarrow> [])
       \<and> (fst (search_csv api True d) = None \<longrightarrow>
            (\<forall>j<length (rows d). not_supplied (cell_at d j ''identifier'')
                \<longrightarrow> j \<in> set (calls (snd (search_csv api True d)))))"
proof -
  obtain e st where run: "search_csv_rows api True [0..<length (rows d)] (start_state d) = (e, st)"
    by (cases "search_csv_rows api True [0..<length (rows d)] (start_state d)") auto
  have ids: "\<forall>i<length (rows d). i mod 100 = 0 \<longrightarrow>
                has_identifier d i \<and> length (rows d ! i) = length (columns d)"
    using assms by (simp add: well_formed_def list_all_length)
  have "saved st = saved (start_state d)"
    using run
  proof (rule search_csv_rows_no_save)
    show "\<forall>i<length (rows d). i mod 100 = 0 \<longrightarrow> extends d (table (start_state d)) i"
      by (simp add: start_state_def extends_refl)
    show "length (rows (table (start_state d))) = length (rows d)"
      by (simp add: start_state_def)
    show "\<forall>i<length (rows d). i mod 100 = 0 \<longrightarrow>
                has_identifier d i \<and> length (rows d ! i) = length (columns d)"
      by (rule ids)
  qed
  then have "saved st = []" by (simp add: start_state_def)
  with run have first: "saved (snd (search_csv api True d)) =
           (case fst (search_csv api True d) of
              None \<Rightarrow> [table (snd (search_csv api True d))]
            | Some e \<Rightarrow> [])"
    by (cases e) (simp_all add: search_csv_def start_state_def)
  have second: "j \<in> set (calls (snd (search_csv api True d)))"
    if ended: "fst (search_csv api True d) = None" and jl: "j < length (rows d)"
      and ns: "not_supplied (cell_at d j ''identifier'')" for j
  proof -
    from ended run have e: "e = None"
      by (cases e) (simp_all add: search_csv_def start_state_def)
    from assms(1) jl have len: "length (rows d ! j) = length (columns d)"
      by (simp add: well_formed_def list_all_length)
    have "j \<in> set (calls st)"
    proof (rule search_csv_rows_calls)
      show "search_csv_rows api True [0..<length (rows d)] (start_state d) = (None, st)"
        using run e by simp
      show "j \<in> set [0..<length (rows d)]" using jl by simp
      show "extends d (table (start_state d)) j" by (simp add: start_state_def extends_refl)
      show "j < length (rows d)" by (rule jl)
      show "length (rows d ! j) = length (columns d)" by (rule len)
      show "\<not> opt_truthy (get_value (row_dict d j) ''identifier'')"
        using ns by (rule not_supplied_not_truthy)
    qed
    then show ?thesis using snd_search_csv[of api True d] run by simp
  qed
  from first second show ?thesis by blast
qed

theorem search_csv_no_intermediate_save_witness:
  "well_formed century_table
   \<and> length (rows century_table) = 201
   \<and> list_all (has_identifier century_table) [0, 100, 200]
   \<and> fst (search_csv (sample_api (\<lambda>i. Inr (Some (sample_product ''B'' 1 2 (square 5)))))
            True century_table) = None
   \<and> saved (snd (search_csv (sample_api (\<lambda>i. Inr (Some (sample_product ''B'' 1 2 (square 5)))))
            True century_table))
       = [table (snd (search_csv (sample_api (\<lambda>i. Inr (Some (sample_product ''B'' 1 2 (square 5)))))
            True century_table))]
   \<and> list_all (\<lambda>j. j \<in> set (calls (snd (search_csv
            (sample_api (\<lambda>i. Inr (Some (sample_product ''B'' 1 2 (square 5)))))
            True century_table))))
        [1, 50, 99, 101, 150, 199]"
proof -
  define api where "api = sample_api (\<lambda>i. Inr (Some (sample_product ''B'' 1 2 (square 5))))"
  have len: "length (rows century_table) = 201"
    by (simp add: century_table_def sample_table_def)
  have h1: "well_formed century_table"
    by (simp add: century_table_def sample_table_def well_formed_def list_all_iff)
  have id: "has_identifier century_table i" if "i < 201" "i mod 100 = 0" for i
    using that by (simp add: century_table_def sample_table_def has_identifier_def cell_at_def)
  have no_id: "not_supplied (cell_at century_table i ''identifier'')"
    if "i < 201" "i mod 100 \<noteq> 0" for i
    using that by (simp add: century_table_def sample_table_def not_supplied_def cell_at_def)
  have h2: "\<forall>i<length (rows century_table). i mod 100 = 0 \<longrightarrow> has_identifier century_table i"
    using id by (simp add: len)
  have ids: "list_all (has_identifier century_table) [0, 100, 200]"
    using id[of 0] id[of 100] id[of 200] by simp
  have fin: "fst (search_csv api True century_table) = None"
    by (rule search_csv_completes) (simp_all add: api_def sample_api_def sample_product_def)
  note t = search_csv_no_intermediate_save[OF h1 h2, of api]
  from t fin have sv: "saved (snd (search_csv api True century_table))
       = [table (snd (search_csv api True century_table))]"
    by simp
  from t fin have called: "j \<in> set (calls (snd (search_csv api True century_table)))"
    if "j < 201" "not_supplied (cell_at century_table j ''identifier'')" for j
    using that by (simp add: len)
  have "list_all (\<lambda>j. j \<in> set (calls (snd (search_csv api True century_table))))
          [1, 50, 99, 101, 150, 199]"
    using called[OF _ no_id, of 1] called[OF _ no_id, of 50] called[OF _ no_id, of 99]
      called[OF _ no_id, of 101] called[OF _ no_id, of 150] called[OF _ no_id, of 199]
    by simp
  with h1 len ids fin sv show ?thesis unfolding api_def by simp
qed

section \<open>Rows whose search finds nothing, and searches that fail\<close>

text \<open>
  C7. When the search for row \<open>i\<close> returns \<open>None\<close>, \<open>to_dataframe\<close> is not called: the pass
  through the loop body ends without an exception and the whole table, the row at
  position \<open>i\<close> included, is what it was before.
\<close>

theorem search_csv_row_no_match:
  assumes "i < length (rows (table st))"
    and "select_resolution api (get_value (row_dict (table st) i) ''resolution'') = Inr res"
    and "api_search api i (get_value (row_dict (table st) i) ''date'')
           (get_value (row_dict (table st) i) ''lat'') (get_value (row_dict (table st) i) ''lon'')
           res (get_value (row_dict (table st) i) ''path_number'')
           (get_value (row_dict (table st) i) ''scene_number'') = Inr None"
  shows "fst (search_csv_row api no_repeat i st) = None
       \<and> table (snd (search_csv_row api no_repeat i st)) = table st"
  using assms by (simp add: search_csv_row_def Let_def table_finish_row)

theorem search_csv_row_no_match_witness:
  "fst (search_csv_row (sample_api (\<lambda>i. Inr None)) False 0
          (start_state (sample_table [[Str ''2020-01-01'', Num 35, Num 139, Str ''OLD'']]))) = None
   \<and> table (snd (search_csv_row (sample_api (\<lambda>i. Inr None)) False 0
          (start_state (sample_table [[Str ''2020-01-01'', Num 35, Num 139, Str ''OLD'']]))))
       = sample_table [[Str ''2020-01-01'', Num 35, Num 139, Str ''OLD'']]"
proof -
  define st where "st = start_state (sample_table [[Str ''2020-01-01'', Num 35, Num 139, Str ''OLD'']])"
  define api where "api = sample_api (\<lambda>i. Inr None)"
  have h1: "0 < length (rows (table st))" by (simp add: st_def start_state_def sample_table_def)
  have h2: "select_resolution api (get_value (row_dict (table st) 0) ''resolution'') = Inr ()"
    by (simp add: select_resolution_def api_def sample_api_def split: option.splits)
  have h3: "api_search api 0 (get_value (row_dict (table st) 0) ''date'')
           (get_value (row_dict (table st) 0) ''lat'') (get_value (row_dict (table st) 0) ''lon'')
           () (get_value (row_dict (table st) 0) ''path_number'')
           (get_value (row_dict (table st) 0) ''scene_number'') = Inr None"
    by (simp add: api_def sample_api_def)
  from search_csv_row_no_match[OF h1 h2 h3, of False]
  show ?thesis unfolding st_def api_def by (simp add: start_state_def)
qed

lemma search_csv_rows_append:
  "search_csv_rows api nr (js1 @ js2) st =
     (case search_csv_rows api nr js1 st of
        (Some e, st') \<Rightarrow> (Some e, st')
      | (None, st') \<Rightarrow> search_csv_rows api nr js2 st')"
  by (induction js1 arbitrary: st) (auto split: prod.splits option.splits)

lemma upt_split_at: "i < n \<Longrightarrow> [0..<n] = [0..<i] @ i # [Suc i..<n]"
proof -
  assume "i < n"
  then have "[0..<n] = [0..<i] @ [i..<n]"
    using upt_add_eq_append[of 0 i "n - i"] by simp
  also have "[i..<n] = i # [Suc i..<n]" using \<open>i < n\<close> by (rule upt_conv_Cons)
  finally show ?thesis .
qed

lemma search_csv_from_row:
  assumes "i < length (rows d)"
    and "search_csv_rows api nr [0..<i] (start_state d) = (None, st)"
  shows "search_csv api nr d =
     (case search_csv_rows api nr (i # [Suc i..<length (rows d)]) st of
        (Some e, st') \<Rightarrow> (Some e, st')
      | (None, st') \<Rightarrow> (None, st'\<lparr>saved := saved st' @ [table st']\<rparr>))"
proof -
  have "search_csv_rows api nr [0..<length (rows d)] (start_state d)
      = search_csv_rows api nr (i # [Suc i..<length (rows d)]) st"
    unfolding upt_split_at[OF assms(1)] search_csv_rows_append assms(2) by simp
  then show ?thesis by (simp add: search_csv_def start_state_def)
qed

text \<open>
  C8, as the code has it. For a row that is not skipped, a search that returns \<open>None\<close>
  leaves the table as it was and the loop goes on with the next row. A search that raises
  is not caught anywhere in \<open>search_csv\<close>: the exception leaves the loop at that row, so no
  later row is searched, and it leaves \<open>search_csv\<close> as well, before the save that follows
  the loop: the run ends in the state in which the call was made, with the files written
  up to then and no final one.
\<close>

theorem search_csv_rows_search_outcome:
  fixes api :: "'r GportalApi" and st :: run_state and i :: nat and res :: 'r
  assumes "i < length (rows (table st))"
    and "select_resolution api (get_value (row_dict (table st) i) ''resolution'') = Inr res"
    and "\<not> (opt_truthy (get_value (row_dict (table st) i) ''identifier'') \<and> no_repeat)"
  defines "answer \<equiv> api_search api i (get_value (row_dict (table st) i) ''date'')
            (get_value (row_dict (table st) i) ''lat'') (get_value (row_dict (table st) i) ''lon'')
            res (get_value (row_dict (table st) i) ''path_number'')
            (get_value (row_dict (table st) i) ''scene_number'')"
  shows "(answer = Inr None
          \<longrightarrow> search_csv_rows api no_repeat (i # js) st
                = search_csv_rows api no_repeat js (finish_row i (st\<lparr>calls := calls st @ [i]\<rparr>))
              \<and> table (finish_row i (st\<lparr>calls := calls st @ [i]\<rparr>)) = table st)
       \<and> (\<forall>e. answer = Inl e
          \<longrightarrow> search_csv_rows api no_repeat (i # js) st = (Some e, st\<lparr>calls := calls st @ [i]\<rparr>))
       \<and> (\<forall>d e. answer = Inl e \<and> i < length (rows d)
                 \<and> search_csv_rows api no_repeat [0..<i] (start_state d) = (None, st)
          \<longrightarrow> search_csv api no_repeat d = (Some e, st\<lparr>calls := calls st @ [i]\<rparr>))
       \<and> (\<forall>d. answer = Inr None \<and> i < length (rows d)
                 \<and> search_csv_rows api no_repeat [0..<i] (start_state d) = (None, st)
          \<longrightarrow> search_csv api no_repeat d =
                (case search_csv_rows api no_repeat [Suc i..<length (rows d)]
                        (finish_row i (st\<lparr>calls := calls st @ [i]\<rparr>)) of
                   (Some e, st') \<Rightarrow> (Some e, st')
                 | (None, st') \<Rightarrow> (None, st'\<lparr>saved := saved st' @ [table st']\<rparr>)))"
proof -
  have none: "search_csv_rows api no_repeat (i # ks) st
                = search_csv_rows api no_repeat ks (finish_row i (st\<lparr>calls := calls st @ [i]\<rparr>))"
    if "answer = Inr None" for ks
    using that assms(1-3) by (auto simp: answer_def search_csv_row_def Let_def)
  have raise: "search_csv_rows api no_repeat (i # ks) st = (Some e, st\<lparr>calls := calls st @ [i]\<rparr>)"
    if "answer = Inl e" for ks e
    using that assms(1-3) by (auto simp: answer_def search_csv_row_def Let_def)
  have tab: "table (finish_row i (st\<lparr>calls := calls st @ [i]\<rparr>)) = table st"
    by (simp add: table_finish_row)
  have whole_raise: "search_csv api no_repeat d = (Some e, st\<lparr>calls := calls st @ [i]\<rparr>)"
    if "answer = Inl e" "i < length (rows d)"
      "search_csv_rows api no_repeat [0..<i] (start_state d) = (None, st)" for d e
    using search_csv_from_row[OF that(2) that(3)] raise[OF that(1)] by simp
  have whole_none: "search_csv api no_repeat d =
                (case search_csv_rows api no_repeat [Suc i..<length (rows d)]
                        (finish_row i (st\<lparr>calls := calls st @ [i]\<rparr>)) of
                   (Some e, st') \<Rightarrow> (Some e, st')
                 | (None, st') \<Rightarrow> (None, st'\<lparr>saved := saved st' @ [table st']\<rparr>))"
    if "answer = Inr None" "i < length (rows d)"
      "search_csv_rows api no_repeat [0..<i] (start_state d) = (None, st)" for d
    using search_csv_from_row[OF that(2) that(3)] none[OF that(1)] by simp
  from none raise tab whole_raise whole_none show ?thesis by blast
qed

theorem search_csv_rows_search_outcome_witness:
  "search_csv_rows (sample_api (\<lambda>i. if i = 0 then Inr None else Inl (Raised ''timeout''))) False
      [0..<1]
      (start_state (sample_table [[Str ''2020-01-01'', Num 35, Num 139, NaN],
                                  [Str ''2020-01-02'', Num 36, Num 140, NaN]]))
     = (None, \<lparr>table = sample_table [[Str ''2020-01-01'', Num 35, Num 139, NaN],
                                      [Str ''2020-01-02'', Num 36, Num 140, NaN]],
               saved = [sample_table [[Str ''2020-01-01'', Num 35, Num 139, NaN],
                                      [Str ''2020-01-02'', Num 36, Num 140, NaN]]],
               calls = [0], pbar = 1\<rparr>)
   \<and> search_csv (sample_api (\<lambda>i. if i = 0 then Inr None else Inl (Raised ''timeout''))) False
      (sample_table [[Str ''2020-01-01'', Num 35, Num 139, NaN],
                     [Str ''2020-01-02'', Num 36, Num 140, NaN]])
     = (Some (Raised ''timeout''),
        \<lparr>table = sample_table [[Str ''2020-01-01'', Num 35, Num 139, NaN],
                               [Str ''2020-01-02'', Num 36, Num 140, NaN]],
         saved = [sample_table [[Str ''2020-01-01'', Num 35, Num 139, NaN],
                                [Str ''2020-01-02'', Num 36, Num 140, NaN]]],
         calls = [0, 1], pbar = 1\<rparr>)"
proof -
  define d where "d = sample_table [[Str ''2020-01-01'', Num 35, Num 139, NaN],
                                  [Str ''2020-01-02'', Num 36, Num 140, NaN]]"
  define api where "api = sample_api (\<lambda>i. if i = 0 then Inr None else Inl (Raised ''timeout''))"
  define st where "st = \<lparr>table = d, saved = [d], calls = [0], pbar = 1\<rparr>"
  have sel: "select_resolution api v = Inr ()" for v
    by (simp add: select_resolution_def api_def sample_api_def split: option.splits)
  have step0: "search_csv_row api False 0 (start_state d) = (None, st)"
    by (simp add: search_csv_row_def Let_def sel)
       (simp add: st_def d_def start_state_def sample_table_def api_def sample_api_def
          finish_row_def Let_def)
  then have pre: "search_csv_rows api False [0..<1] (start_state d) = (None, st)"
    by simp
  have h1: "1 < length (rows (table st))" by (simp add: st_def d_def sample_table_def)
  have h2: "select_resolution api (get_value (row_dict (table st) 1) ''resolution'') = Inr ()"
    by (rule sel)
  have h3: "\<not> (opt_truthy (get_value (row_dict (table st) 1) ''identifier'') \<and> False)" by simp
  have ans: "api_search api 1 (get_value (row_dict (table st) 1) ''date'')
            (get_value (row_dict (table st) 1) ''lat'') (get_value (row_dict (table st) 1) ''lon'')
            () (get_value (row_dict (table st) 1) ''path_number'')
            (get_value (row_dict (table st) 1) ''scene_number'') = Inl (Raised ''timeout'')"
    by (simp add: api_def sample_api_def)
  have len: "1 < length (rows d)" by (simp add: d_def sample_table_def)
  from search_csv_rows_search_outcome[OF h1 h2 h3, of "[]"] ans len pre
  have "search_csv api False d = (Some (Raised ''timeout''), st\<lparr>calls := calls st @ [1]\<rparr>)"
    by blast
  then have "search_csv api False d
      = (Some (Raised ''timeout''), \<lparr>table = d, saved = [d], calls = [0, 1], pbar = 1\<rparr>)"
    by (simp add: st_def)
  with pre show ?thesis unfolding d_def api_def st_def by simp
qed

text \<open>
  A run over two rows whose first search raises: the run ends with that exception after
  one call, the second row is never searched and no file is written, not even the final
  one.
\<close>

theorem search_csv_failed_search_aborts:
  "search_csv (sample_api (\<lambda>i. Inl (Raised ''timeout''))) False
      (sample_table [[Str ''2020-01-01'', Num 35, Num 139, NaN],
                     [Str ''2020-01-02'', Num 36, Num 140, NaN]])
     = (Some (Raised ''timeout''),
        \<lparr>table = sample_table [[Str ''2020-01-01'', Num 35, Num 139, NaN],
                               [Str ''2020-01-02'', Num 36, Num 140, NaN]],
         saved = [], calls = [0], pbar = 0\<rparr>)"
proof -
  define st where "st = start_state (sample_table [[Str ''2020-01-01'', Num 35, Num 139, NaN],
                                  [Str ''2020-01-02'', Num 36, Num 140, NaN]])"
  have sel: "select_resolution (sample_api (\<lambda>i. Inl (Raised ''timeout'')))
               (get_value (row_dict (table st) 0) ''resolution'') = Inr ()"
    by (simp add: select_resolution_def sample_api_def split: option.splits)
  have "search_csv_row (sample_api (\<lambda>i. Inl (Raised ''timeout''))) False 0 st
          = (Some (Raised ''timeout''), st\<lparr>calls := [0]\<rparr>)"
    by (simp add: search_csv_row_def Let_def sel)
       (simp add: st_def start_state_def sample_table_def sample_api_def)
  then have "search_csv_rows (sample_api (\<lambda>i. Inl (Raised ''timeout''))) False [0, 1] st
          = (Some (Raised ''timeout''), st\<lparr>calls := [0]\<rparr>)"
    by simp
  moreover have "[0..<length (rows (sample_table [[Str ''2020-01-01'', Num 35, Num 139, NaN],
                     [Str ''2020-01-02'', Num 36, Num 140, NaN]]))] = [0, 1]"
    by (simp add: sample_table_def upt_rec)
  ultimately show ?thesis
    by (simp add: search_csv_def st_def start_state_def)
qed

section \<open>Writing a product into the table\<close>

text \<open>
  C4, where the code departs from it. The append branch is taken when the index equals
  \<open>df.size\<close>, the number of cells, not the number of rows. An index at which the table
  has no row, and which is not the number of cells, reaches \<open>df.index[index]\<close> and raises
  \<open>IndexError\<close>; the table is left as it was and no row is added.
\<close>

theorem to_dataframe_index_past_rows:
  assumes "length (rows d) \<le> i" and "i \<noteq> size_df d"
  shows "to_dataframe r (Some d) (Some i) = (d, Inl IndexError)"
  using assms by (simp add: to_dataframe_def)

theorem to_dataframe_index_past_rows_witness:
  "length (rows (sample_table [[Str ''2020-01-01'', Num 35, Num 139, NaN]])) \<le> 1
   \<and> size_df (sample_table [[Str ''2020-01-01'', Num 35, Num 139, NaN]]) = 4
   \<and> to_dataframe (sample_product ''B'' 1 2 (square 5))
        (Some (sample_table [[Str ''2020-01-01'', Num 35, Num 139, NaN]])) (Some 1)
       = (sample_table [[Str ''2020-01-01'', Num 35, Num 139, NaN]], Inl IndexError)"
proof -
  have h1: "length (rows (sample_table [[Str ''2020-01-01'', Num 35, Num 139, NaN]])) \<le> 1"
    by (simp add: sample_table_def)
  have sz: "size_df (sample_table [[Str ''2020-01-01'', Num 35, Num 139, NaN]]) = 4"
    by (simp add: sample_table_def size_df_def)
  then have h2: "1 \<noteq> size_df (sample_table [[Str ''2020-01-01'', Num 35, Num 139, NaN]])"
    by simp
  from to_dataframe_index_past_rows[OF h1 h2] h1 sz show ?thesis by simp
qed

section \<open>Cells that count as not supplied\<close>

lemma get_value_supplied: "get_value (row_dict d i) key = supplied d i key"
  by (auto simp: supplied_def not_supplied_def get_value_cell_at truthy_def fillna0_def
        split: option.splits cell.splits)

lemma opt_truthy_get_value: "opt_truthy (get_value m key) \<longleftrightarrow> get_value m key \<noteq> None"
  by (auto simp: get_value_def opt_truthy_def split: option.splits)

lemma opt_truthy_supplied: "opt_truthy (supplied d i key) \<longleftrightarrow> supplied d i key \<noteq> None"
  using opt_truthy_get_value[of "row_dict d i" key] by (simp add: get_value_supplied)

text \<open>
  C10. In a pass through the loop body, every value the driver reads from the row is
  \<open>None\<close> exactly when the cell is absent (no such column), missing, the number zero or
  the empty string, and is the cell itself otherwise. The resolution is chosen from the
  value so read, the skip test looks at the identifier so read, and \<open>api.search\<close> is
  called with the date, latitude, longitude, path number and scene number so read; what
  follows depends on the row only through that call. So a latitude of 0.0 or a path number
  of 0 reaches the search as \<open>None\<close>. In \<open>filter_results\<close>, a query whose latitude or
  longitude is \<open>None\<close> is resolved as one without coordinates, whatever the polygons and
  the geometry helpers are, and a query whose path or scene number is \<open>None\<close> is resolved
  as one without either number.
\<close>

theorem search_csv_row_query_not_supplied:
  assumes "i < length (rows (table st))"
  shows "search_csv_row api no_repeat i st =
     (case select_resolution api (supplied (table st) i ''resolution'') of
        Inl e \<Rightarrow> (Some e, st)
      | Inr res \<Rightarrow>
          if supplied (table st) i ''identifier'' \<noteq> None \<and> no_repeat
          then (None, st\<lparr>pbar := pbar st + 1\<rparr>)
          else after_search i (st\<lparr>calls := calls st @ [i]\<rparr>)
                 (api_search api i (supplied (table st) i ''date'') (supplied (table st) i ''lat'')
                    (supplied (table st) i ''lon'') res (supplied (table st) i ''path_number'')
                    (supplied (table st) i ''scene_number'')))
   \<and> (supplied (table st) i key = None \<longleftrightarrow> not_supplied (cell_at (table st) i key))
   \<and> (lat = None \<or> lon = None
        \<longrightarrow> filter_results ip md results lat lon p s = filter_results ip' md' results None None p s)
   \<and> (p = None \<or> s = None
        \<longrightarrow> filter_results ip md results lat lon p s = filter_results ip md results lat lon None None)"
proof (intro conjI impI)
  show "search_csv_row api no_repeat i st =
     (case select_resolution api (supplied (table st) i ''resolution'') of
        Inl e \<Rightarrow> (Some e, st)
      | Inr res \<Rightarrow>
          if supplied (table st) i ''identifier'' \<noteq> None \<and> no_repeat
          then (None, st\<lparr>pbar := pbar st + 1\<rparr>)
          else after_search i (st\<lparr>calls := calls st @ [i]\<rparr>)
                 (api_search api i (supplied (table st) i ''date'') (supplied (table st) i ''lat'')
                    (supplied (table st) i ''lon'') res (supplied (table st) i ''path_number'')
                    (supplied (table st) i ''scene_number'')))"
    using assms
    by (auto simp: search_csv_row_def Let_def after_search_def opt_truthy_supplied
          get_value_supplied split: sum.splits option.splits prod.splits)
next
  show "supplied (table st) i key = None \<longleftrightarrow> not_supplied (cell_at (table st) i key)"
    by (auto simp: supplied_def not_supplied_def)
next
  assume "lat = None \<or> lon = None"
  then show "filter_results ip md results lat lon p s = filter_results ip' md' results None None p s"
    by (auto simp: filter_results_def)
next
  assume "p = None \<or> s = None"
  then show "filter_results ip md results lat lon p s = filter_results ip md results lat lon None None"
    by (auto simp: filter_results_def)
qed

theorem search_csv_row_query_not_supplied_witness:
  "cell_at (sample_table [[Str ''2020-01-01'', Num 0, Num 139, NaN]]) 0 ''lat'' = Some (Num 0)
   \<and> search_csv_row
        \<lparr>api_search = (\<lambda>j date lat lon res path_number scene_number.
            if lat = None \<and> lon = Some (Num 139) \<and> path_number = None \<and> scene_number = None
            then Inr None else Inl (Raised ''another query'')),
         resolution_from_int = (\<lambda>c. Inr ()), resolution_H = ()\<rparr>
        False 0 (start_state (sample_table [[Str ''2020-01-01'', Num 0, Num 139, NaN]]))
     = (None, \<lparr>table = sample_table [[Str ''2020-01-01'', Num 0, Num 139, NaN]],
               saved = [sample_table [[Str ''2020-01-01'', Num 0, Num 139, NaN]]],
               calls = [0], pbar = 1\<rparr>)
   \<and> filter_results inside_polygon (\<lambda>p poly. 0)
        [sample_product ''A'' 1 1 [(0, 0), (1, 0), (1, 1)], sample_product ''B'' 1 2 (square 200)]
        None (Some 139) None None
     = filter_results (\<lambda>xs ys px py. 1) (\<lambda>p poly. 1)
        [sample_product ''A'' 1 1 [(0, 0), (1, 0), (1, 1)], sample_product ''B'' 1 2 (square 200)]
        None None None None"
proof -
  define d where "d = sample_table [[Str ''2020-01-01'', Num 0, Num 139, NaN]]"
  define api :: "unit GportalApi" where "api =
        \<lparr>api_search = (\<lambda>j date lat lon res path_number scene_number.
            if lat = None \<and> lon = Some (Num 139) \<and> path_number = None \<and> scene_number = None
            then Inr None else Inl (Raised ''another query'')),
         resolution_from_int = (\<lambda>c. Inr ()), resolution_H = ()\<rparr>"
  define rs where "rs = [sample_product ''A'' 1 1 [(0, 0), (1, 0), (1, 1)],
                         sample_product ''B'' 1 2 (square 200)]"
  have h: "0 < length (rows (table (start_state d)))"
    by (simp add: d_def start_state_def sample_table_def)
  have cells: "cell_at d 0 ''lat'' = Some (Num 0)" "cell_at d 0 ''lon'' = Some (Num 139)"
    "cell_at d 0 ''date'' = Some (Str ''2020-01-01'')" "cell_at d 0 ''identifier'' = Some NaN"
    "cell_at d 0 ''path_number'' = None" "cell_at d 0 ''scene_number'' = None"
    "cell_at d 0 ''resolution'' = None"
    by (simp_all add: d_def sample_table_def cell_at_def)
  have sup: "supplied d 0 ''lat'' = None" "supplied d 0 ''lon'' = Some (Num 139)"
    "supplied d 0 ''date'' = Some (Str ''2020-01-01'')" "supplied d 0 ''identifier'' = None"
    "supplied d 0 ''path_number'' = None" "supplied d 0 ''scene_number'' = None"
    "supplied d 0 ''resolution'' = None"
    by (simp_all add: supplied_def not_supplied_def cells)
  have td: "table (start_state d) = d" by (simp add: start_state_def)
  note t = search_csv_row_query_not_supplied[OF h, where api = api and no_repeat = False
      and ip = inside_polygon and md = "\<lambda>p poly. 0" and ip' = "\<lambda>xs ys px py. 1"
      and md' = "\<lambda>p poly. 1" and results = rs and lat = None and lon = "Some 139"
      and p = None and s = None]
  from t have a: "search_csv_row api False 0 (start_state d)
      = (None, \<lparr>table = d, saved = [d], calls = [0], pbar = 1\<rparr>)"
    by (simp add: td sup select_resolution_def api_def after_search_def finish_row_def
          start_state_def Let_def)
  from t have b: "filter_results inside_polygon (\<lambda>p poly. 0) rs None (Some 139) None None
     = filter_results (\<lambda>xs ys px py. 1) (\<lambda>p poly. 1) rs None None None None"
    by simp
  from cells(1) a b show ?thesis unfolding d_def api_def rs_def by blast
qed

end
